theory Spec2Isabelle
  imports Main
begin

section \<open>Strings as the source uses them\<close>

text \<open>
  A JavaScript string is modelled as a \<^typ>\<open>string\<close>: the bytes of its UTF-8
  encoding, so an ASCII character is one \<^typ>\<open>char\<close>.  Every text the source
  searches for is ASCII, and no byte of a character outside ASCII is the byte of an
  ASCII character, so a search on the bytes finds what the source finds.  The string
  methods the proxy relies on are \<open>startsWith\<close>, \<open>includes\<close>, \<open>toLowerCase\<close> and
  \<open>trim\<close>;
  \<open>slice(3)\<close> after the three ASCII characters \<open>/v1\<close> is \<^term>\<open>drop 3\<close>.
  \<open>toLowerCase\<close> is applied only before searching for \<open>codex\<close>, \<open>gpt-5\<close> and
  \<open>gpt 5\<close>; the ASCII letters are lower-cased, and the characters outside ASCII,
  none of which lower-cases into a character of these three texts, are left as they
  are.
\<close>

fun startsWith :: "string \<Rightarrow> string \<Rightarrow> bool" where
  "startsWith s [] = True"
| "startsWith [] (p # ps) = False"
| "startsWith (c # cs) (p # ps) = (c = p \<and> startsWith cs ps)"

fun includes_str :: "string \<Rightarrow> string \<Rightarrow> bool" where
  "includes_str [] p = (p = [])"
| "includes_str (c # cs) p = (startsWith (c # cs) p \<or> includes_str cs p)"

definition toLowerChar :: "char \<Rightarrow> char" where
  "toLowerChar c =
     (case map_of (zip ''ABCDEFGHIJKLMNOPQRSTUVWXYZ'' ''abcdefghijklmnopqrstuvwxyz'') c of
        Some l \<Rightarrow> l
      | None \<Rightarrow> c)"

definition toLowerCase :: "string \<Rightarrow> string" where
  "toLowerCase s = map toLowerChar s"

section \<open>Credentials and their validity (proxy server, \<open>hasValidAccess\<close>)\<close>

record StoredCredentials =
  access :: string
  refresh :: string
  expires :: int
  accountId :: string

text \<open>
  \<open>Date.now()\<close> is the first argument; \<open>null\<close> credentials are \<^term>\<open>None\<close>.
  Epoch milliseconds are integers well inside the exact range of a JavaScript number.
\<close>

definition hasValidAccess :: "int \<Rightarrow> StoredCredentials option \<Rightarrow> bool" where
  "hasValidAccess now creds =
     (case creds of
        None \<Rightarrow> False
      | Some c \<Rightarrow> let bufferMs = 60000 in expires c > now + bufferMs)"

section \<open>Model-name normalisation (request transformer, \<open>normalizeModel\<close>)\<close>

text \<open>An absent model is \<^term>\<open>None\<close>; the empty string is falsy, as in the source.\<close>

definition normalizeModel :: "string option \<Rightarrow> string" where
  "normalizeModel model =
     (case model of
        None \<Rightarrow> ''gpt-5''
      | Some m \<Rightarrow>
          if m = [] then ''gpt-5''
          else if includes_str (toLowerCase m) ''codex'' then ''gpt-5-codex''
          else if includes_str (toLowerCase m) ''gpt-5'' \<or> includes_str (toLowerCase m) ''gpt 5''
            then ''gpt-5''
          else ''gpt-5'')"

section \<open>Path normalisation and dispatch (proxy server)\<close>

definition normalizePath :: "string \<Rightarrow> string" where
  "normalizePath pathname =
     (if \<not> startsWith pathname ''/'' then ''/'' @ pathname
      else if startsWith pathname ''/v1/'' then drop 3 pathname
      else if pathname = ''/v1'' then ''/''
      else pathname)"

text \<open>
  The request listener of \<open>startServer\<close> chooses among three branches from the
  request method and the path name of the request URL.
\<close>

datatype route = Health | ResponsesEndpoint | NotFound

definition dispatch :: "string \<Rightarrow> string \<Rightarrow> route" where
  "dispatch method pathname =
     (let normalized = normalizePath pathname in
      if method = ''GET'' \<and> normalized = ''/health'' then Health
      else if startsWith normalized ''/responses'' then ResponsesEndpoint
      else NotFound)"

section \<open>JSON values and input items (request transformer, \<open>filterInput\<close>)\<close>

text \<open>
  A parsed JSON value.  An object is an association list in property order; a property
  that is absent reads as \<open>undefined\<close>, modelled by \<^term>\<open>None\<close>.  Numbers matter
  only through their truthiness and are integers here.
\<close>

datatype json =
    JNull
  | JBool bool
  | JNum int
  | JStr string
  | JArr "json list"
  | JObj "(string \<times> json) list"

type_synonym jobject = "(string \<times> json) list"

type_synonym InputItem = jobject

definition getProp :: "jobject \<Rightarrow> string \<Rightarrow> json option" where
  "getProp obj k = map_of obj k"

text \<open>JavaScript truthiness of a property value (\<open>undefined\<close> is falsy).\<close>

fun truthy :: "json option \<Rightarrow> bool" where
  "truthy None = False"
| "truthy (Some JNull) = False"
| "truthy (Some (JBool b)) = b"
| "truthy (Some (JNum n)) = (n \<noteq> 0)"
| "truthy (Some (JStr s)) = (s \<noteq> [])"
| "truthy (Some (JArr xs)) = True"
| "truthy (Some (JObj kvs)) = True"

text \<open>The rest pattern \<open>{ id, ...itemWithoutId }\<close>: every property but \<open>id\<close>, in order.\<close>

definition withoutId :: "InputItem \<Rightarrow> InputItem" where
  "withoutId item = filter (\<lambda>kv. fst kv \<noteq> ''id'') item"

text \<open>An input that is not an array (here: \<open>undefined\<close>) is returned as it is.\<close>

definition filterInput :: "InputItem list option \<Rightarrow> InputItem list option" where
  "filterInput input =
     (case input of
        None \<Rightarrow> None
      | Some items \<Rightarrow>
          Some (map (\<lambda>item. if truthy (getProp item ''id'') then withoutId item else item)
                 (filter (\<lambda>item.
                    if getProp item ''type'' = Some (JStr ''item_reference'') then False else True)
                  items)))"

section \<open>User configuration and reasoning settings (request transformer)\<close>

text \<open>
  Option values arrive from JSON configuration, so they are strings here; an absent
  option is \<^term>\<open>None\<close>.  \<open>a || b\<close> on an optional string takes \<open>b\<close> when \<open>a\<close> is
  absent or empty.
\<close>

record ConfigOptions =
  reasoningEffort :: "string option"
  reasoningSummary :: "string option"
  textVerbosity :: "string option"
  include_option :: "string list option"

record UserConfig =
  global_options :: ConfigOptions
  models :: "(string \<times> ConfigOptions option) list"

record ReasoningConfig =
  effort :: string
  summary :: string

definition orElse :: "string option \<Rightarrow> string \<Rightarrow> string" where
  "orElse a b = (case a of None \<Rightarrow> b | Some v \<Rightarrow> if v = [] then b else v)"

definition emptyOptions :: ConfigOptions where
  "emptyOptions =
     \<lparr>reasoningEffort = None, reasoningSummary = None, textVerbosity = None, include_option = None\<rparr>"

text \<open>The object spread \<open>{ ...globalOptions, ...modelOptions }\<close>, property by property.\<close>

definition spreadOptions :: "ConfigOptions \<Rightarrow> ConfigOptions \<Rightarrow> ConfigOptions" where
  "spreadOptions g m =
     \<lparr>reasoningEffort = (case reasoningEffort m of Some v \<Rightarrow> Some v | None \<Rightarrow> reasoningEffort g),
      reasoningSummary = (case reasoningSummary m of Some v \<Rightarrow> Some v | None \<Rightarrow> reasoningSummary g),
      textVerbosity = (case textVerbosity m of Some v \<Rightarrow> Some v | None \<Rightarrow> textVerbosity g),
      include_option = (case include_option m of Some v \<Rightarrow> Some v | None \<Rightarrow> include_option g)\<rparr>"

definition getModelConfig :: "string \<Rightarrow> UserConfig \<Rightarrow> ConfigOptions" where
  "getModelConfig modelName userConfig =
     (let globalOptions = global_options userConfig;
          modelOptions =
            (case map_of (models userConfig) modelName of
               Some (Some opts) \<Rightarrow> opts
             | _ \<Rightarrow> emptyOptions)
      in spreadOptions globalOptions modelOptions)"

text \<open>
  \<open>originalModel?.includes(...)\<close> is \<open>undefined\<close>, hence falsy, for an absent model.
  The tests on the original name are plain \<open>includes\<close>, without lower-casing.
\<close>

definition getReasoningConfig :: "string option \<Rightarrow> ConfigOptions \<Rightarrow> ReasoningConfig" where
  "getReasoningConfig originalModel userConfig =
     (let isLightweight =
            (case originalModel of
               None \<Rightarrow> False
             | Some m \<Rightarrow> includes_str m ''nano'' \<or> includes_str m ''mini'');
          isCodex =
            (case originalModel of None \<Rightarrow> False | Some m \<Rightarrow> includes_str m ''codex'');
          defaultEffort = (if isLightweight then ''minimal'' else ''medium'');
          effort0 = orElse (reasoningEffort userConfig) defaultEffort;
          effort1 = (if isCodex \<and> effort0 = ''minimal'' then ''low'' else effort0)
      in \<lparr>effort = effort1, summary = orElse (reasoningSummary userConfig) ''auto''\<rparr>)"

section \<open>Request body transformation (request transformer, \<open>transformRequestBody\<close>)\<close>

text \<open>
  The request body with the properties its interface declares; properties outside the
  interface are not touched by the transformer and are left out.  \<open>model\<close> is optional
  here because \<open>normalizeModel\<close> accepts \<open>undefined\<close>.
\<close>

record ReasoningPartial =
  effort_opt :: "string option"
  summary_opt :: "string option"

record TextConfig =
  verbosity :: "string option"

record RequestBody =
  model :: "string option"
  store :: "bool option"
  stream :: "bool option"
  instructions :: "string option"
  input :: "InputItem list option"
  tools :: "json option"
  reasoning :: "ReasoningPartial option"
  text_config :: "TextConfig option"
  include_list :: "string list option"
  prompt_cache_key :: "string option"
  max_output_tokens :: "int option"
  max_completion_tokens :: "int option"
  metadata :: "jobject option"

text \<open>
  Values the transformer takes from outside: the bridge prompt, the tool guide selected
  by the tool profile, the cached OpenCode prompt (\<^term>\<open>None\<close> when fetching it
  fails), and the conversion to a string that \<open>Array.prototype.join\<close> applies to an
  element that is not a string.
\<close>

record Prompts =
  CODEX_OPENCODE_BRIDGE :: string
  TOOL_GUIDE_MESSAGE :: "string option"
  openCodeCodexPrompt :: "string option"
  ToString :: "json \<Rightarrow> string"

text \<open>
  \<open>String.prototype.trim\<close> removes white space and line terminators from both ends.
  In UTF-8 these are the single bytes of U+0009 to U+000D and U+0020, the two bytes of
  U+00A0, and the three bytes of U+1680, U+2000 to U+200A, U+2028, U+2029, U+202F,
  U+205F, U+3000 and U+FEFF.
\<close>

definition isSpaceChar :: "char \<Rightarrow> bool" where
  "isSpaceChar a \<longleftrightarrow> a \<in> set [CHR 0x09, CHR 0x0A, CHR 0x0B, CHR 0x0C, CHR 0x0D, CHR 0x20]"

definition isSpacePair :: "char \<Rightarrow> char \<Rightarrow> bool" where
  "isSpacePair a b \<longleftrightarrow> a = CHR 0xC2 \<and> b = CHR 0xA0"

definition isSpaceTriple :: "char \<Rightarrow> char \<Rightarrow> char \<Rightarrow> bool" where
  "isSpaceTriple a b c \<longleftrightarrow>
     (a = CHR 0xE1 \<and> b = CHR 0x9A \<and> c = CHR 0x80) \<or>
     (a = CHR 0xE2 \<and> b = CHR 0x80 \<and>
      c \<in> set [CHR 0x80, CHR 0x81, CHR 0x82, CHR 0x83, CHR 0x84, CHR 0x85, CHR 0x86, CHR 0x87,
                CHR 0x88, CHR 0x89, CHR 0x8A, CHR 0xA8, CHR 0xA9, CHR 0xAF]) \<or>
     (a = CHR 0xE2 \<and> b = CHR 0x81 \<and> c = CHR 0x9F) \<or>
     (a = CHR 0xE3 \<and> b = CHR 0x80 \<and> c = CHR 0x80) \<or>
     (a = CHR 0xEF \<and> b = CHR 0xBB \<and> c = CHR 0xBF)"

fun trimStart :: "string \<Rightarrow> string" where
  "trimStart (a # b # c # rest) =
     (if isSpaceChar a then trimStart (b # c # rest)
      else if isSpacePair a b then trimStart (c # rest)
      else if isSpaceTriple a b c then trimStart rest
      else a # b # c # rest)"
| "trimStart [a, b] =
     (if isSpaceChar a then trimStart [b] else if isSpacePair a b then [] else [a, b])"
| "trimStart [a] = (if isSpaceChar a then [] else [a])"
| "trimStart [] = []"

text \<open>The same from the end, on the reversed string.\<close>

fun trimEndReversed :: "string \<Rightarrow> string" where
  "trimEndReversed (c # b # a # rest) =
     (if isSpaceChar c then trimEndReversed (b # a # rest)
      else if isSpacePair b c then trimEndReversed (a # rest)
      else if isSpaceTriple a b c then trimEndReversed rest
      else c # b # a # rest)"
| "trimEndReversed [b, a] =
     (if isSpaceChar b then trimEndReversed [a] else if isSpacePair a b then [] else [b, a])"
| "trimEndReversed [a] = (if isSpaceChar a then [] else [a])"
| "trimEndReversed [] = []"

definition trimEnd :: "string \<Rightarrow> string" where
  "trimEnd s = rev (trimEndReversed (rev s))"

definition trim :: "string \<Rightarrow> string" where
  "trim s = trimEnd (trimStart s)"

text \<open>
  The encodings of the white space characters and line terminators, and the strings
  made of them only.
\<close>

definition whiteSpace :: "string list" where
  "whiteSpace =
     [[CHR 0x09], [CHR 0x0A], [CHR 0x0B], [CHR 0x0C], [CHR 0x0D], [CHR 0x20],
      [CHR 0xC2, CHR 0xA0],
      [CHR 0xE1, CHR 0x9A, CHR 0x80],
      [CHR 0xE2, CHR 0x80, CHR 0x80], [CHR 0xE2, CHR 0x80, CHR 0x81],
      [CHR 0xE2, CHR 0x80, CHR 0x82], [CHR 0xE2, CHR 0x80, CHR 0x83],
      [CHR 0xE2, CHR 0x80, CHR 0x84], [CHR 0xE2, CHR 0x80, CHR 0x85],
      [CHR 0xE2, CHR 0x80, CHR 0x86], [CHR 0xE2, CHR 0x80, CHR 0x87],
      [CHR 0xE2, CHR 0x80, CHR 0x88], [CHR 0xE2, CHR 0x80, CHR 0x89],
      [CHR 0xE2, CHR 0x80, CHR 0x8A],
      [CHR 0xE2, CHR 0x80, CHR 0xA8], [CHR 0xE2, CHR 0x80, CHR 0xA9],
      [CHR 0xE2, CHR 0x80, CHR 0xAF],
      [CHR 0xE2, CHR 0x81, CHR 0x9F],
      [CHR 0xE3, CHR 0x80, CHR 0x80],
      [CHR 0xEF, CHR 0xBB, CHR 0xBF]]"

inductive onlyWhiteSpace :: "string \<Rightarrow> bool" where
  empty: "onlyWhiteSpace []"
| more: "w \<in> set whiteSpace \<Longrightarrow> onlyWhiteSpace r \<Longrightarrow> onlyWhiteSpace (w @ r)"

fun joinWith :: "string \<Rightarrow> string list \<Rightarrow> string" where
  "joinWith sep [] = []"
| "joinWith sep [x] = x"
| "joinWith sep (x # y # ys) = x @ sep @ joinWith sep (y # ys)"

text \<open>
  A property of a content part.  Reading a property of a number, a string, a boolean or
  an array that does not have it gives \<open>undefined\<close>.  Reading a property of
  \<open>null\<close> throws in the source; a content array is taken to have no \<open>null\<close>
  element, and the definition gives such an element no property.
\<close>

definition partProp :: "json \<Rightarrow> string \<Rightarrow> json option" where
  "partProp c k = (case c of JObj kvs \<Rightarrow> map_of kvs k | _ \<Rightarrow> None)"

definition getContentText :: "Prompts \<Rightarrow> InputItem \<Rightarrow> string" where
  "getContentText prompts item =
     (case getProp item ''content'' of
        Some (JStr s) \<Rightarrow> s
      | Some (JArr cs) \<Rightarrow>
          joinWith [CHR 0x0A]
            (map (\<lambda>c. case partProp c ''text'' of
                        Some (JStr t) \<Rightarrow> t
                      | Some v \<Rightarrow> ToString prompts v
                      | None \<Rightarrow> [])
               (filter (\<lambda>c. partProp c ''type'' = Some (JStr ''input_text'') \<and>
                              truthy (partProp c ''text'')) cs))
      | _ \<Rightarrow> [])"

text \<open>
  \<open>substring(0, 200)\<close> counts UTF-16 code units.  A character of one, two or three
  bytes is one code unit; a character of four bytes is a surrogate pair, whose first
  unit is fixed by the first two bytes and the upper bits of the third, and whose second
  unit by the lower four bits of the third byte and the fourth byte.
  \<^term>\<open>codeUnits\<close> cuts a string into its code units, each written with the bytes
  that fix it, so that two strings have the same first 200 code units exactly when
  \<^term>\<open>substring200\<close> gives the same list.
\<close>

definition upperBits :: "char \<Rightarrow> char" where
  "upperBits c = char_of ((of_char c :: nat) div 16)"

definition lowerBits :: "char \<Rightarrow> char" where
  "lowerBits c = char_of ((of_char c :: nat) mod 16)"

definition leadingBytes :: "char \<Rightarrow> nat" where
  "leadingBytes a =
     (if (of_char a :: nat) < 0xC0 then 1
      else if (of_char a :: nat) < 0xE0 then 2
      else if (of_char a :: nat) < 0xF0 then 3
      else 4)"

fun codeUnits :: "string \<Rightarrow> string list" where
  "codeUnits (a # b # c # d # rest) =
     (if leadingBytes a = 4 then [a, b, upperBits c] # [lowerBits c, d] # codeUnits rest
      else if leadingBytes a = 3 then [a, b, c] # codeUnits (d # rest)
      else if leadingBytes a = 2 then [a, b] # codeUnits (c # d # rest)
      else [a] # codeUnits (b # c # d # rest))"
| "codeUnits [a, b, c] =
     (if leadingBytes a \<ge> 3 then [[a, b, c]]
      else if leadingBytes a = 2 then [a, b] # codeUnits [c]
      else [a] # codeUnits [b, c])"
| "codeUnits [a, b] = (if leadingBytes a \<ge> 2 then [[a, b]] else [[a], [b]])"
| "codeUnits [a] = [[a]]"
| "codeUnits [] = []"

definition substring200 :: "string \<Rightarrow> string list" where
  "substring200 s = take 200 (codeUnits s)"

definition isOpenCodeSystemPrompt :: "Prompts \<Rightarrow> InputItem \<Rightarrow> string option \<Rightarrow> bool" where
  "isOpenCodeSystemPrompt prompts item cachedPrompt =
     (let isSystemRole =
            (getProp item ''role'' = Some (JStr ''developer'') \<or>
             getProp item ''role'' = Some (JStr ''system''))
      in if \<not> isSystemRole then False
         else let contentText = getContentText prompts item
           in if contentText = [] then False
              else if (case cachedPrompt of
                         None \<Rightarrow> False
                       | Some cp \<Rightarrow>
                           cp \<noteq> [] \<and>
                           (trim contentText = trim cp \<or>
                            substring200 (trim contentText) = substring200 (trim cp)))
                then True
              else startsWith contentText ''You are a coding agent running in'')"

definition filterOpenCodeSystemPrompts ::
    "Prompts \<Rightarrow> InputItem list option \<Rightarrow> InputItem list option" where
  "filterOpenCodeSystemPrompts prompts input_items =
     (case input_items of
        None \<Rightarrow> None
      | Some items \<Rightarrow>
          Some (filter (\<lambda>item.
                  if getProp item ''role'' = Some (JStr ''user'') then True
                  else \<not> isOpenCodeSystemPrompt prompts item (openCodeCodexPrompt prompts)) items))"

definition developerMessage :: "string \<Rightarrow> InputItem" where
  "developerMessage message_text =
     [(''type'', JStr ''message''), (''role'', JStr ''developer''),
      (''content'', JArr [JObj [(''type'', JStr ''input_text''), (''text'', JStr message_text)]])]"

definition addCodexBridgeMessage ::
    "Prompts \<Rightarrow> InputItem list option \<Rightarrow> bool \<Rightarrow> InputItem list option" where
  "addCodexBridgeMessage prompts input_items hasTools =
     (case input_items of
        None \<Rightarrow> None
      | Some items \<Rightarrow>
          if \<not> hasTools then Some items
          else Some (developerMessage (CODEX_OPENCODE_BRIDGE prompts) # items))"

definition addToolGuideMessage ::
    "InputItem list option \<Rightarrow> bool \<Rightarrow> string option \<Rightarrow> InputItem list option" where
  "addToolGuideMessage input_items hasTools messageText =
     (case input_items of
        None \<Rightarrow> None
      | Some items \<Rightarrow>
          if \<not> hasTools \<or> orElse messageText [] = [] then Some items
          else Some (developerMessage (orElse messageText []) # items))"

text \<open>
  The transformer proper.  The body is mutated in place by the source; here each
  assignment is a record update, in source order.
\<close>

definition transformRequestBody ::
    "Prompts \<Rightarrow> RequestBody \<Rightarrow> string \<Rightarrow> UserConfig \<Rightarrow> bool \<Rightarrow> RequestBody" where
  "transformRequestBody prompts body codexInstructions userConfig codexMode =
     (let originalModel = model body;
          normalizedModel = normalizeModel (model body);
          lookupModel = orElse originalModel normalizedModel;
          modelConfig = getModelConfig lookupModel userConfig;
          body1 = body\<lparr>model := Some normalizedModel, store := Some False, stream := Some True,
                    instructions := Some codexInstructions\<rparr>;
          body2 =
            (case input body1 of
               None \<Rightarrow> body1
             | Some items \<Rightarrow>
                 let filtered = filterInput (Some items);
                     hasTools = truthy (tools body1)
                 in if codexMode
                    then body1\<lparr>input :=
                           addCodexBridgeMessage prompts
                             (filterOpenCodeSystemPrompts prompts filtered) hasTools\<rparr>
                    else body1\<lparr>input :=
                           addToolGuideMessage filtered hasTools (TOOL_GUIDE_MESSAGE prompts)\<rparr>);
          reasoningConfig = getReasoningConfig originalModel modelConfig;
          body3 = body2\<lparr>reasoning :=
                    Some \<lparr>effort_opt = Some (effort reasoningConfig),
                          summary_opt = Some (summary reasoningConfig)\<rparr>\<rparr>;
          body4 = body3\<lparr>text_config :=
                    Some \<lparr>verbosity = Some (orElse (textVerbosity modelConfig) ''medium'')\<rparr>\<rparr>;
          body5 = body4\<lparr>include_list :=
                    Some (case include_option modelConfig of
                            Some l \<Rightarrow> l
                          | None \<Rightarrow> [''reasoning.encrypted_content''])\<rparr>
      in body5\<lparr>max_output_tokens := None, max_completion_tokens := None\<rparr>)"

section \<open>Credential lifecycle (proxy server)\<close>

text \<open>
  A thrown \<open>Error\<close> is a value carrying its message.  The token endpoint answers with
  a failure or with an access token, a refresh token and an expiry time.
\<close>

datatype exn = Error string

datatype TokenResult = TokenFailed | TokenSuccess string string int

text \<open>
  Effects that leave the process are recorded in order: calls of the token endpoint,
  runs of the interactive login flow, reads and writes of the token file, calls of the
  upstream backend, and entries handed to the error log.
\<close>

datatype event =
    RefreshCall string
  | LoginFlow
  | FileRead
  | FileWrite StoredCredentials
  | UpstreamCall string
  | ErrorLogged nat

text \<open>
  The world outside the handler: the parsed content of the token file (\<^term>\<open>None\<close>
  when it is missing or unreadable), the time \<open>Date.now()\<close> returns, and the effects
  so far.  Reading never throws, as in the source; a write is taken to succeed.
\<close>

record World =
  tokenFile :: "StoredCredentials option"
  clock :: int
  events :: "event list"

text \<open>
  Collaborators imported from modules outside the proxy: the token endpoint
  (\<open>refreshAccessToken\<close>, \<open>exchangeAuthorizationCode\<close>, answering at a given
  time), the account claim decoded from an access token, the authorization code the
  login flow ends with, and the time an awaited external operation takes.
\<close>

record Collaborators =
  refreshAccessToken :: "int \<Rightarrow> string \<Rightarrow> TokenResult"
  exchangeAuthorizationCode :: "int \<Rightarrow> string \<Rightarrow> TokenResult"
  chatgpt_account_id :: "string \<Rightarrow> string option"
  authorizationCode :: "string option"
  latency :: nat

text \<open>
  The in-flight refresh promise is identified with the credentials whose refresh it
  performs; \<open>null\<close> is \<^term>\<open>None\<close>.
\<close>

record AuthState =
  credentials :: "StoredCredentials option"
  refreshPromise :: "StoredCredentials option"

definition record_event :: "event \<Rightarrow> World \<Rightarrow> World" where
  "record_event e w = w\<lparr>events := events w @ [e]\<rparr>"

definition advance :: "Collaborators \<Rightarrow> World \<Rightarrow> World" where
  "advance ext w = w\<lparr>clock := clock w + int (latency ext)\<rparr>"

definition loadStoredCredentials :: "World \<Rightarrow> StoredCredentials option \<times> World" where
  "loadStoredCredentials w = (tokenFile w, record_event FileRead w)"

definition persistCredentials :: "StoredCredentials \<Rightarrow> World \<Rightarrow> World" where
  "persistCredentials creds w = record_event (FileWrite creds) (w\<lparr>tokenFile := Some creds\<rparr>)"

definition extractAccountId :: "Collaborators \<Rightarrow> string \<Rightarrow> exn + string" where
  "extractAccountId ext accessToken =
     (case chatgpt_account_id ext accessToken of
        None \<Rightarrow> Inl (Error ''Failed to extract ChatGPT account id from token'')
      | Some account \<Rightarrow>
          if account = [] then Inl (Error ''Failed to extract ChatGPT account id from token'')
          else Inr account)"

text \<open>What follows a token answer in both \<open>refreshCredentials\<close> and \<open>interactiveLogin\<close>.\<close>

definition adoptTokens ::
    "Collaborators \<Rightarrow> string \<Rightarrow> TokenResult \<Rightarrow> World \<Rightarrow> (exn + StoredCredentials) \<times> World" where
  "adoptTokens ext failure tokenResult w =
     (case tokenResult of
        TokenFailed \<Rightarrow> (Inl (Error failure), w)
      | TokenSuccess a r e \<Rightarrow>
          (case extractAccountId ext a of
             Inl x \<Rightarrow> (Inl x, w)
           | Inr account \<Rightarrow>
               let updated = \<lparr>access = a, refresh = r, expires = e, accountId = account\<rparr>
               in (Inr updated, persistCredentials updated w)))"

text \<open>
  \<open>refreshCredentials\<close> in its two halves: the call of the token endpoint, issued
  when the function is entered, and the continuation that runs when the answer arrives.
\<close>

definition refreshRequest :: "StoredCredentials \<Rightarrow> World \<Rightarrow> World" where
  "refreshRequest current w = record_event (RefreshCall (refresh current)) w"

definition refreshResponse ::
    "Collaborators \<Rightarrow> StoredCredentials \<Rightarrow> World \<Rightarrow> (exn + StoredCredentials) \<times> World" where
  "refreshResponse ext current w =
     (let w1 = advance ext w
      in adoptTokens ext ''Token refresh failed''
           (refreshAccessToken ext (clock w1) (refresh current)) w1)"

definition refreshCredentials ::
    "Collaborators \<Rightarrow> StoredCredentials \<Rightarrow> World \<Rightarrow> (exn + StoredCredentials) \<times> World" where
  "refreshCredentials ext current w = refreshResponse ext current (refreshRequest current w)"

definition interactiveLogin :: "Collaborators \<Rightarrow> World \<Rightarrow> (exn + StoredCredentials) \<times> World" where
  "interactiveLogin ext w =
     (let w1 = advance ext (record_event LoginFlow w)
      in if orElse (authorizationCode ext) [] = []
         then (Inl (Error ''Authorization code not provided''), w1)
         else adoptTokens ext ''Failed to exchange authorization code for tokens''
                (exchangeAuthorizationCode ext (clock w1) (orElse (authorizationCode ext) [])) w1)"

definition bootstrapCredentials ::
    "Collaborators \<Rightarrow> AuthState \<times> World \<Rightarrow> (exn + unit) \<times> AuthState \<times> World" where
  "bootstrapCredentials ext s =
     (let authState = fst s; w = snd s
      in if credentials authState \<noteq> None \<and> hasValidAccess (clock w) (credentials authState)
         then (Inr (), authState, w)
         else
           let cached = fst (loadStoredCredentials w); w1 = snd (loadStoredCredentials w)
           in if cached \<noteq> None \<and> hasValidAccess (clock w1) cached
              then (Inr (), authState\<lparr>credentials := cached\<rparr>, w1)
              else
                let attempt =
                      (case cached of
                         None \<Rightarrow> (None, w1)
                       | Some c \<Rightarrow>
                           (case refreshCredentials ext c w1 of
                              (Inr creds, w2) \<Rightarrow> (Some creds, w2)
                            | (Inl e, w2) \<Rightarrow> (None, w2)))
                in case attempt of
                     (Some creds, w2) \<Rightarrow> (Inr (), authState\<lparr>credentials := Some creds\<rparr>, w2)
                   | (None, w2) \<Rightarrow>
                       (case interactiveLogin ext w2 of
                          (Inl e, w3) \<Rightarrow> (Inl e, authState, w3)
                        | (Inr creds, w3) \<Rightarrow>
                            (Inr (), authState\<lparr>credentials := Some creds\<rparr>, w3)))"

text \<open>
  The handlers chained onto the refresh promise: \<open>then\<close> stores the new credentials,
  \<open>catch\<close> clears them, \<open>finally\<close> clears the promise.  Awaiting \<open>null\<close> changes
  nothing.
\<close>

definition settleRefresh :: "Collaborators \<Rightarrow> AuthState \<times> World \<Rightarrow> AuthState \<times> World" where
  "settleRefresh ext s =
     (case refreshPromise (fst s) of
        None \<Rightarrow> s
      | Some current \<Rightarrow>
          (case refreshResponse ext current (snd s) of
             (Inr creds, w1) \<Rightarrow> ((fst s)\<lparr>credentials := Some creds, refreshPromise := None\<rparr>, w1)
           | (Inl e, w1) \<Rightarrow> ((fst s)\<lparr>credentials := None, refreshPromise := None\<rparr>, w1)))"

text \<open>
  \<open>ensureFreshCredentials\<close> run on its own: the awaited promise settles at the
  \<open>await\<close>.
\<close>

definition ensureFreshCredentials ::
    "Collaborators \<Rightarrow> AuthState \<times> World \<Rightarrow> (exn + unit) \<times> AuthState \<times> World" where
  "ensureFreshCredentials ext s =
     (let authState = fst s; w = snd s
      in if credentials authState \<noteq> None \<and> hasValidAccess (clock w) (credentials authState)
         then (Inr (), authState, w)
         else
           (case credentials authState of
              None \<Rightarrow> bootstrapCredentials ext s
            | Some current \<Rightarrow>
                let started =
                      (if refreshPromise authState = None
                       then (authState\<lparr>refreshPromise := Some current\<rparr>, refreshRequest current w)
                       else s);
                    settled = settleRefresh ext started
                in if credentials (fst settled) = None
                   then bootstrapCredentials ext settled
                   else (Inr (), settled)))"

section \<open>The proxied endpoint (proxy server, \<open>handleResponsesEndpoint\<close>)\<close>

text \<open>
  A request after URL parsing: method, path name, query string and the body text that
  \<open>readRequestBody\<close> collects.  An upstream response is known by its status line,
  headers and body text; \<open>ok\<close> is a status in the 2xx range.
\<close>

record Request =
  req_method :: string
  req_pathname :: string
  req_search :: string
  req_body :: string

record Response =
  status :: nat
  statusText :: string
  headers :: "(string \<times> string) list"
  bodyText :: "string option"

definition ok :: "Response \<Rightarrow> bool" where
  "ok r \<longleftrightarrow> 200 \<le> status r \<and> status r \<le> 299"

text \<open>
  What the client is answered: a JSON document written by \<open>sendJson\<close>, or an upstream
  response relayed by \<open>forwardResponse\<close>.
\<close>

datatype reply = JsonReply nat json | Forwarded Response

definition sendJson :: "nat \<Rightarrow> json \<Rightarrow> reply" where
  "sendJson code payload = JsonReply code payload"

definition forwardResponse :: "Response \<Rightarrow> reply" where
  "forwardResponse upstream = Forwarded upstream"

record ProxyContext =
  context_instructions :: string
  context_userConfig :: UserConfig
  context_codexMode :: bool

text \<open>
  Library functions and helper modules the handler calls: \<open>JSON.parse\<close> (a syntax
  error is its message), the base URL and URL rewrite of the backend,
  \<open>fetch\<close> applied to URL, account id, access token and body, the conversion of an
  event stream into one JSON response, and the request transformation of the first
  server variant.  A serialised body is identified with the JSON object it serialises.
\<close>

record Backend =
  JSON_parse :: "string \<Rightarrow> string + jobject"
  CODEX_BASE_URL :: string
  rewriteUrlForCodex :: "string \<Rightarrow> string"
  fetch :: "string \<Rightarrow> string \<Rightarrow> string \<Rightarrow> jobject \<Rightarrow> exn + Response"
  convertSseToJson :: "Response \<Rightarrow> exn + Response"
  transformRequestForCodex :: "jobject \<Rightarrow> string \<Rightarrow> ProxyContext \<Rightarrow> jobject option"

text \<open>Settings read from the process environment, and the instruction text cached at start-up.\<close>

record ProxyEnv =
  FORCE_JSON_RESPONSES :: bool
  DISABLE_CODEX_INSTRUCTIONS :: bool
  DISABLE_ENV_OVERRIDE :: bool
  ENV_OVERRIDE_TEXT :: "string option"
  globalCodexInstructions :: "string option"

definition setProp :: "jobject \<Rightarrow> string \<Rightarrow> json \<Rightarrow> jobject" where
  "setProp obj k v =
     (if k \<in> fst ` set obj then map (\<lambda>kv. if fst kv = k then (k, v) else kv) obj
      else obj @ [(k, v)])"

definition deleteProp :: "jobject \<Rightarrow> string \<Rightarrow> jobject" where
  "deleteProp obj k = filter (\<lambda>kv. fst kv \<noteq> k) obj"

definition buildCodexUrl :: "Backend \<Rightarrow> Request \<Rightarrow> string" where
  "buildCodexUrl bk req =
     (let normalizedPath = normalizePath (req_pathname req);
          target = CODEX_BASE_URL bk @ normalizedPath @ req_search req
      in if includes_str normalizedPath ''/codex/'' then target
         else rewriteUrlForCodex bk target)"

definition stripMetadata :: "jobject \<Rightarrow> jobject" where
  "stripMetadata parsedBody =
     (if truthy (getProp parsedBody ''metadata'') then deleteProp parsedBody ''metadata''
      else parsedBody)"

text \<open>The error-log branch taken for a response that is not \<open>ok\<close>.\<close>

definition logIfNotOk :: "Response \<Rightarrow> World \<Rightarrow> World" where
  "logIfNotOk r w = (if \<not> ok r then record_event (ErrorLogged (status r)) w else w)"

subsection \<open>First variant: conversion forced by configuration\<close>

text \<open>The part of the handler that follows the credential check.\<close>

definition callUpstream ::
    "Backend \<Rightarrow> ProxyEnv \<Rightarrow> ProxyContext \<Rightarrow> Request \<Rightarrow> jobject \<Rightarrow> StoredCredentials \<Rightarrow>
       World \<Rightarrow> (exn + reply) \<times> World" where
  "callUpstream bk penv context req sanitizedBody creds w =
     (let codexUrl = buildCodexUrl bk req;
          finalBody =
            (case transformRequestForCodex bk sanitizedBody codexUrl context of
               Some transformed \<Rightarrow> transformed
             | None \<Rightarrow> sanitizedBody);
          w1 = record_event (UpstreamCall codexUrl) w
      in case fetch bk codexUrl (accountId creds) (access creds) finalBody of
           Inl e \<Rightarrow> (Inl e, w1)
         | Inr upstreamResponse \<Rightarrow>
             (case (if FORCE_JSON_RESPONSES penv then convertSseToJson bk upstreamResponse
                    else Inr upstreamResponse) of
                Inl e \<Rightarrow> (Inl e, w1)
              | Inr responseForClient \<Rightarrow>
                  (Inr (forwardResponse responseForClient), logIfNotOk responseForClient w1)))"

text \<open>
  The handler of the first variant.  The trace id only labels log lines and is left
  out.  An exception of \<open>ensureFreshCredentials\<close> leaves the handler as it is thrown.
\<close>

definition handleResponsesEndpoint ::
    "Backend \<Rightarrow> Collaborators \<Rightarrow> ProxyEnv \<Rightarrow> ProxyContext \<Rightarrow> Request \<Rightarrow>
       AuthState \<times> World \<Rightarrow> (exn + reply) \<times> AuthState \<times> World" where
  "handleResponsesEndpoint bk ext penv context req s =
     (if req_method req \<noteq> ''POST''
      then (Inr (sendJson 405 (JObj [(''error'', JStr ''Method not allowed'')])), s)
      else if req_body req = []
      then (Inr (sendJson 400 (JObj [(''error'', JStr ''Request body is required'')])), s)
      else
        (case JSON_parse bk (req_body req) of
           Inl message \<Rightarrow>
             (Inr (sendJson 400 (JObj [(''error'', JStr (''Invalid JSON body: '' @ message))])), s)
         | Inr parsedBody \<Rightarrow>
             let sanitizedBody = stripMetadata parsedBody
             in (case ensureFreshCredentials ext s of
                   (Inl e, s1) \<Rightarrow> (Inl e, s1)
                 | (Inr u, authState, w) \<Rightarrow>
                     (case credentials authState of
                        None \<Rightarrow>
                          (Inr (sendJson 401 (JObj [(''error'', JStr ''Authentication required'')])),
                           authState, w)
                      | Some creds \<Rightarrow>
                          (case callUpstream bk penv context req sanitizedBody creds w of
                             (r, w1) \<Rightarrow> (r, authState, w1))))))"

subsection \<open>Second variant: conversion by the client's streaming preference\<close>

definition stringProp :: "jobject \<Rightarrow> string \<Rightarrow> string" where
  "stringProp obj k = (case getProp obj k of Some (JStr t) \<Rightarrow> t | _ \<Rightarrow> [])"

definition defaultOverride :: string where
  "defaultOverride =
     joinWith '' ''
       [''[ENVIRONMENT OVERRIDE]'',
        ''You are running inside Claude Code CLI (not Codex).'',
        ''Ignore Codex-specific operating rules and tool mappings above.'',
        ''Follow the client-provided system/developer prompts and the tool schema present in the input items.'',
        ''When instructions conflict, prefer the client-provided Claude Code guidance.'']"

definition envOverrideText :: "ProxyEnv \<Rightarrow> string" where
  "envOverrideText penv =
     (case ENV_OVERRIDE_TEXT penv of
        None \<Rightarrow> defaultOverride
      | Some overrideFromEnv \<Rightarrow>
          if overrideFromEnv \<noteq> [] \<and> trim overrideFromEnv \<noteq> [] then trim overrideFromEnv
          else defaultOverride)"

text \<open>
  The rewriting of the parsed body between parsing and serialisation: metadata, store
  and stream flags, instructions, input and include, in source order.  The guidance
  text that the source extracts from the input is never used afterwards, and console
  output has no effect on the reply; both are left out.
\<close>

definition prepareBody :: "ProxyEnv \<Rightarrow> jobject \<Rightarrow> jobject" where
  "prepareBody penv parsedBody =
     (let b1 = stripMetadata parsedBody;
          b2 = setProp b1 ''store'' (JBool False);
          b3 = setProp b2 ''stream'' (JBool True);
          b4 = (case getProp b3 ''instructions'' of
                  Some (JStr t) \<Rightarrow> if t = [] then setProp b3 ''instructions'' (JStr []) else b3
                | _ \<Rightarrow> setProp b3 ''instructions'' (JStr []));
          b5 = (if trim (stringProp b4 ''instructions'') = []
                then setProp b4 ''instructions''
                       (JStr (if DISABLE_CODEX_INSTRUCTIONS penv then []
                              else orElse (globalCodexInstructions penv) ''You are Codex.''))
                else b4);
          originalInput = (case getProp b5 ''input'' of Some (JArr xs) \<Rightarrow> xs | _ \<Rightarrow> []);
          newInput =
            (if \<not> DISABLE_ENV_OVERRIDE penv
             then [JObj (developerMessage (envOverrideText penv))] else []) @ originalInput;
          b6 = setProp b5 ''input'' (JArr newInput)
      in case getProp b6 ''include'' of
           Some (JArr xs) \<Rightarrow>
             if xs = [] then setProp b6 ''include'' (JArr [JStr ''reasoning.encrypted_content''])
             else b6
         | _ \<Rightarrow> setProp b6 ''include'' (JArr [JStr ''reasoning.encrypted_content'']))"



subsection \<open>The request listener\<close>

text \<open>
  The listener of \<open>startServer\<close> around a handler of the proxied endpoint.  Every
  exception of the handlers above is thrown before a reply is begun, so the
  \<open>catch\<close> block finds the headers unsent and answers 500.
\<close>

definition requestListener ::
    "(Request \<Rightarrow> AuthState \<times> World \<Rightarrow> (exn + reply) \<times> AuthState \<times> World) \<Rightarrow> Request \<Rightarrow>
       AuthState \<times> World \<Rightarrow> reply \<times> AuthState \<times> World" where
  "requestListener handler req s =
     (case dispatch (req_method req) (req_pathname req) of
        Health \<Rightarrow> (sendJson 200 (JObj [(''ok'', JBool True)]), s)
      | ResponsesEndpoint \<Rightarrow>
          (case handler req s of
             (Inl e, s1) \<Rightarrow> (sendJson 500 (JObj [(''error'', JStr ''Internal server error'')]), s1)
           | (Inr r, s1) \<Rightarrow> (r, s1))
      | NotFound \<Rightarrow> (sendJson 404 (JObj [(''error'', JStr ''Not found'')]), s))"

section \<open>Concurrent calls of \<open>ensureFreshCredentials\<close>\<close>

text \<open>
  The server runs on one thread: between two \<open>await\<close>s a call runs without
  interruption, and the continuations of a settled promise run in the order in which
  they were registered, before any other event is handled.  A call of
  \<open>ensureFreshCredentials\<close> is therefore at one of the following points: not yet
  made, suspended on the shared refresh promise, suspended inside
  \<open>bootstrapCredentials\<close> on the refresh of the stored record or on the interactive
  login, returned, or ended by an exception.
\<close>

datatype pc =
    NotStarted
  | AwaitingRefresh
  | AwaitingCachedRefresh StoredCredentials
  | AwaitingLogin
  | Returned
  | Threw exn

text \<open>\<open>interactiveLogin\<close> from the moment its flow ends.\<close>

definition loginFinish :: "Collaborators \<Rightarrow> World \<Rightarrow> (exn + StoredCredentials) \<times> World" where
  "loginFinish ext w =
     (let w1 = advance ext w
      in if orElse (authorizationCode ext) [] = []
         then (Inl (Error ''Authorization code not provided''), w1)
         else adoptTokens ext ''Failed to exchange authorization code for tokens''
                (exchangeAuthorizationCode ext (clock w1) (orElse (authorizationCode ext) [])) w1)"

text \<open>\<open>bootstrapCredentials\<close> from its entry to its first \<open>await\<close>.\<close>

definition bootstrapStart :: "Collaborators \<Rightarrow> AuthState \<times> World \<Rightarrow> pc \<times> AuthState \<times> World" where
  "bootstrapStart ext s =
     (let authState = fst s; w = snd s
      in if credentials authState \<noteq> None \<and> hasValidAccess (clock w) (credentials authState)
         then (Returned, authState, w)
         else
           let cached = fst (loadStoredCredentials w); w1 = snd (loadStoredCredentials w)
           in if cached \<noteq> None \<and> hasValidAccess (clock w1) cached
              then (Returned, authState\<lparr>credentials := cached\<rparr>, w1)
              else
                (case cached of
                   Some c \<Rightarrow> (AwaitingCachedRefresh c, authState, refreshRequest c w1)
                 | None \<Rightarrow> (AwaitingLogin, authState, record_event LoginFlow w1)))"

text \<open>Its continuation when the refresh of the stored record is answered.\<close>

definition cachedRefreshAnswer ::
    "Collaborators \<Rightarrow> StoredCredentials \<Rightarrow> AuthState \<times> World \<Rightarrow> pc \<times> AuthState \<times> World" where
  "cachedRefreshAnswer ext c s =
     (case refreshResponse ext c (snd s) of
        (Inr creds, w1) \<Rightarrow> (Returned, (fst s)\<lparr>credentials := Some creds\<rparr>, w1)
      | (Inl e, w1) \<Rightarrow> (AwaitingLogin, fst s, record_event LoginFlow w1))"

text \<open>Its continuation when the interactive login ends.\<close>

definition loginAnswer :: "Collaborators \<Rightarrow> AuthState \<times> World \<Rightarrow> pc \<times> AuthState \<times> World" where
  "loginAnswer ext s =
     (case loginFinish ext (snd s) of
        (Inr creds, w1) \<Rightarrow> (Returned, (fst s)\<lparr>credentials := Some creds\<rparr>, w1)
      | (Inl e, w1) \<Rightarrow> (Threw e, fst s, w1))"

text \<open>
  \<open>ensureFreshCredentials\<close> from its entry to its first \<open>await\<close>: the fast path,
  the bootstrap of absent credentials, or joining (and, when none is in flight,
  starting) the shared refresh.
\<close>

definition enter :: "Collaborators \<Rightarrow> AuthState \<times> World \<Rightarrow> pc \<times> AuthState \<times> World" where
  "enter ext s =
     (let authState = fst s; w = snd s
      in if credentials authState \<noteq> None \<and> hasValidAccess (clock w) (credentials authState)
         then (Returned, authState, w)
         else
           (case credentials authState of
              None \<Rightarrow> bootstrapStart ext s
            | Some current \<Rightarrow>
                if refreshPromise authState = None
                then (AwaitingRefresh, authState\<lparr>refreshPromise := Some current\<rparr>,
                      refreshRequest current w)
                else (AwaitingRefresh, authState, w)))"

text \<open>Its continuation after the awaited refresh promise has settled.\<close>

definition resume :: "Collaborators \<Rightarrow> AuthState \<times> World \<Rightarrow> pc \<times> AuthState \<times> World" where
  "resume ext s =
     (if credentials (fst s) = None then bootstrapStart ext s else (Returned, fst s, snd s))"

text \<open>
  The event loop: the position of every call, the calls suspended on the refresh
  promise in the order of their \<open>await\<close>, and the shared state.
\<close>

record Loop =
  positions :: "pc list"
  waiters :: "nat list"
  auth :: AuthState
  world :: World

fun resumeAll :: "Collaborators \<Rightarrow> nat list \<Rightarrow> Loop \<Rightarrow> Loop" where
  "resumeAll ext [] l = l\<lparr>waiters := []\<rparr>"
| "resumeAll ext (i # rest) l =
     (case resume ext (auth l, world l) of
        (p, a, w) \<Rightarrow> resumeAll ext rest (l\<lparr>positions := (positions l)[i := p], auth := a, world := w\<rparr>))"

text \<open>
  What can happen next: a call is made, the token endpoint answers the shared refresh,
  it answers a bootstrap's refresh of the stored record, or a login flow ends.
\<close>

datatype action = Call nat | RefreshAnswer | CachedRefreshAnswer nat | LoginAnswer nat

definition place :: "nat \<Rightarrow> pc \<times> AuthState \<times> World \<Rightarrow> Loop \<Rightarrow> Loop" where
  "place i r l = l\<lparr>positions := (positions l)[i := fst r], auth := fst (snd r), world := snd (snd r)\<rparr>"

fun step :: "Collaborators \<Rightarrow> action \<Rightarrow> Loop \<Rightarrow> Loop option" where
  "step ext (Call i) l =
     (if i < length (positions l) \<and> positions l ! i = NotStarted
      then let r = enter ext (auth l, world l);
               l1 = place i r l
           in Some (if fst r = AwaitingRefresh then l1\<lparr>waiters := waiters l @ [i]\<rparr> else l1)
      else None)"
| "step ext RefreshAnswer l =
     (if refreshPromise (auth l) \<noteq> None
      then let settled = settleRefresh ext (auth l, world l)
           in Some (resumeAll ext (waiters l) (l\<lparr>auth := fst settled, world := snd settled\<rparr>))
      else None)"
| "step ext (CachedRefreshAnswer i) l =
     (if i < length (positions l)
      then (case positions l ! i of
              AwaitingCachedRefresh c \<Rightarrow> Some (place i (cachedRefreshAnswer ext c (auth l, world l)) l)
            | _ \<Rightarrow> None)
      else None)"
| "step ext (LoginAnswer i) l =
     (if i < length (positions l) \<and> positions l ! i = AwaitingLogin
      then Some (place i (loginAnswer ext (auth l, world l)) l)
      else None)"

fun run :: "Collaborators \<Rightarrow> action list \<Rightarrow> Loop \<Rightarrow> Loop option" where
  "run ext [] l = Some l"
| "run ext (a # as) l = (case step ext a l of None \<Rightarrow> None | Some l1 \<Rightarrow> run ext as l1)"

text \<open>The refresh calls among the recorded effects.\<close>

fun refreshCalls :: "event list \<Rightarrow> string list" where
  "refreshCalls [] = []"
| "refreshCalls (RefreshCall t # es) = t # refreshCalls es"
| "refreshCalls (e # es) = refreshCalls es"

text \<open>
  One call run on its own: each suspension is followed at once by the answer it waits
  for.
\<close>

fun outcome :: "pc \<times> AuthState \<times> World \<Rightarrow> (exn + unit) \<times> AuthState \<times> World" where
  "outcome (Threw e, s) = (Inl e, s)"
| "outcome (p, s) = (Inr (), s)"

fun afterRefresh :: "Collaborators \<Rightarrow> pc \<times> AuthState \<times> World \<Rightarrow> pc \<times> AuthState \<times> World" where
  "afterRefresh ext (AwaitingRefresh, s) = resume ext (settleRefresh ext s)"
| "afterRefresh ext r = r"

fun afterCachedRefresh :: "Collaborators \<Rightarrow> pc \<times> AuthState \<times> World \<Rightarrow> pc \<times> AuthState \<times> World" where
  "afterCachedRefresh ext (AwaitingCachedRefresh c, s) = cachedRefreshAnswer ext c s"
| "afterCachedRefresh ext r = r"

fun afterLogin :: "Collaborators \<Rightarrow> pc \<times> AuthState \<times> World \<Rightarrow> pc \<times> AuthState \<times> World" where
  "afterLogin ext (AwaitingLogin, s) = loginAnswer ext s"
| "afterLogin ext r = r"

definition alone :: "Collaborators \<Rightarrow> AuthState \<times> World \<Rightarrow> (exn + unit) \<times> AuthState \<times> World" where
  "alone ext s = outcome (afterLogin ext (afterCachedRefresh ext (afterRefresh ext (enter ext s))))"

section \<open>Facts about the string helpers\<close>

lemma startsWith_iff: "startsWith s p \<longleftrightarrow> (\<exists>r. s = p @ r)"
  by (induction s p rule: startsWith.induct) auto

lemma includes_iff: "includes_str s p \<longleftrightarrow> (\<exists>a b. s = a @ p @ b)"
proof (induction s)
  case Nil
  then show ?case by auto
next
  case (Cons c cs)
  show ?case
  proof
    assume "includes_str (c # cs) p"
    then consider "startsWith (c # cs) p" | "includes_str cs p" by auto
    then show "\<exists>a b. c # cs = a @ p @ b"
    proof cases
      case 1
      then obtain r where "c # cs = p @ r" by (auto simp: startsWith_iff)
      then have "c # cs = [] @ p @ r" by simp
      then show ?thesis by blast
    next
      case 2
      then obtain a b where "cs = a @ p @ b" using Cons.IH by auto
      then have "c # cs = (c # a) @ p @ b" by simp
      then show ?thesis by blast
    qed
  next
    assume "\<exists>a b. c # cs = a @ p @ b"
    then obtain a b where ab: "c # cs = a @ p @ b" by auto
    show "includes_str (c # cs) p"
    proof (cases a)
      case Nil
      with ab have "startsWith (c # cs) p" by (auto simp: startsWith_iff)
      then show ?thesis by simp
    next
      case (Cons x a')
      with ab have "cs = a' @ p @ b" by simp
      then have "includes_str cs p" using Cons.IH by auto
      then show ?thesis by simp
    qed
  qed
qed

section \<open>Credential validity\<close>

text \<open>
  C6.  For every credential record and every current time \<open>now\<close>, the record is valid
  exactly when \<open>expires - now\<close> exceeds the buffer of 60000 milliseconds.
\<close>

theorem hasValidAccess_buffer:
  "hasValidAccess now (Some creds) = (expires creds - now > 60000)"
  by (auto simp: hasValidAccess_def)

section \<open>Model normalisation\<close>

text \<open>
  A name contains \<open>sub\<close> case-insensitively when one of its substrings lower-cases to
  \<open>sub\<close>; this is what the source tests with \<open>toLowerCase().includes(sub)\<close>.
\<close>

lemma map_eq_append3:
  assumes "map f xs = a' @ s @ b'"
  shows "\<exists>a w b. xs = a @ w @ b \<and> map f w = s"
proof -
  from assms obtain a r where a: "xs = a @ r" and r: "map f r = s @ b'"
    by (metis map_eq_append_conv)
  from r obtain w b where "r = w @ b" and "map f w = s"
    by (metis map_eq_append_conv)
  with a show ?thesis by blast
qed

lemma includes_toLowerCase_iff:
  "includes_str (toLowerCase name) sub \<longleftrightarrow>
     (\<exists>a w b. name = a @ w @ b \<and> toLowerCase w = sub)"
proof
  assume "includes_str (toLowerCase name) sub"
  then obtain a' b' where "map toLowerChar name = a' @ sub @ b'"
    unfolding includes_iff toLowerCase_def by blast
  then show "\<exists>a w b. name = a @ w @ b \<and> toLowerCase w = sub"
    unfolding toLowerCase_def by (rule map_eq_append3)
next
  assume "\<exists>a w b. name = a @ w @ b \<and> toLowerCase w = sub"
  then obtain a w b where "name = a @ w @ b" "toLowerCase w = sub" by blast
  then have "toLowerCase name = toLowerCase a @ sub @ toLowerCase b"
    by (simp add: toLowerCase_def)
  then show "includes_str (toLowerCase name) sub"
    unfolding includes_iff by blast
qed

text \<open>
  C8.  A model name that contains "codex" case-insensitively is normalised to the codex
  variant \<open>gpt-5-codex\<close>; every other name normalises to the base variant \<open>gpt-5\<close>,
  whether or not it contains "gpt-5" or "gpt 5", and so does an absent name.
\<close>

theorem normalizeModel_variants:
  "((\<exists>a w b. name = a @ w @ b \<and> toLowerCase w = ''codex'')
      \<longrightarrow> normalizeModel (Some name) = ''gpt-5-codex'') \<and>
   (\<not> (\<exists>a w b. name = a @ w @ b \<and> toLowerCase w = ''codex'')
      \<longrightarrow> normalizeModel (Some name) = ''gpt-5'') \<and>
   normalizeModel None = ''gpt-5''"
proof -
  let ?c = "includes_str (toLowerCase name) ''codex''"
  have eq: "(\<exists>a w b. name = a @ w @ b \<and> toLowerCase w = ''codex'') = ?c"
    by (rule includes_toLowerCase_iff [symmetric])
  have ne: "?c \<Longrightarrow> name \<noteq> []"
    by (cases name) (simp_all add: toLowerCase_def)
  have 1: "?c \<Longrightarrow> normalizeModel (Some name) = ''gpt-5-codex''"
    using ne by (simp add: normalizeModel_def)
  have 2: "\<not> ?c \<Longrightarrow> normalizeModel (Some name) = ''gpt-5''"
    by (simp add: normalizeModel_def)
  have 3: "normalizeModel None = ''gpt-5''"
    by (simp add: normalizeModel_def)
  show ?thesis
    unfolding eq using 1 2 3 by blast
qed

theorem normalizeModel_variants_witness:
  "normalizeModel (Some ''gpt-5-codex-high'') = ''gpt-5-codex'' \<and>
   normalizeModel (Some ''GPT 5'') = ''gpt-5'' \<and>
   normalizeModel (Some ''unknown-model'') = ''gpt-5'' \<and>
   normalizeModel None = ''gpt-5''"
proof -
  have "includes_str (toLowerCase ''gpt-5-codex-high'') ''codex''"
    by (simp add: toLowerCase_def toLowerChar_def)
  then have codex: "\<exists>a w b. ''gpt-5-codex-high'' = a @ w @ b \<and> toLowerCase w = ''codex''"
    by (rule iffD1 [OF includes_toLowerCase_iff])
  have "\<not> includes_str (toLowerCase ''GPT 5'') ''codex''"
    by (simp add: toLowerCase_def toLowerChar_def)
  then have gpt: "\<not> (\<exists>a w b. ''GPT 5'' = a @ w @ b \<and> toLowerCase w = ''codex'')"
    by (rule contrapos_nn) (rule iffD2 [OF includes_toLowerCase_iff])
  have "\<not> includes_str (toLowerCase ''unknown-model'') ''codex''"
    by (simp add: toLowerCase_def toLowerChar_def)
  then have unk: "\<not> (\<exists>a w b. ''unknown-model'' = a @ w @ b \<and> toLowerCase w = ''codex'')"
    by (rule contrapos_nn) (rule iffD2 [OF includes_toLowerCase_iff])
  have a: "normalizeModel (Some ''gpt-5-codex-high'') = ''gpt-5-codex''"
    by (rule mp [OF conjunct1 [OF normalizeModel_variants] codex])
  have b: "normalizeModel (Some ''GPT 5'') = ''gpt-5''"
    by (rule mp [OF conjunct1 [OF conjunct2 [OF normalizeModel_variants]] gpt])
  have c: "normalizeModel (Some ''unknown-model'') = ''gpt-5''"
    by (rule mp [OF conjunct1 [OF conjunct2 [OF normalizeModel_variants]] unk])
  have d: "normalizeModel None = ''gpt-5''"
    by (rule conjunct2 [OF conjunct2 [OF normalizeModel_variants]])
  from a b c d show ?thesis by (intro conjI)
qed

section \<open>Dispatch\<close>

text \<open>
  C10.  The listener hands a request to the proxied responses endpoint exactly when the
  path of the request starts with \<open>/responses\<close> or \<open>/v1/responses\<close>, or, having
  no leading slash, with \<open>responses\<close>: these are the paths whose normalised form
  (leading slash ensured, a leading \<open>/v1\<close> segment removed once) starts with
  \<open>/responses\<close>.  So \<open>/responses/extra\<close> and \<open>/responsesfoo\<close> are proxied.  It
  answers the health check exactly for a GET of \<open>/health\<close>, \<open>/v1/health\<close> or
  \<open>health\<close>, and "not found" exactly when the normalised path fails the prefix test
  and the request is not a GET whose normalised path is \<open>/health\<close>.
\<close>

theorem dispatch_prefix_rule:
  "(dispatch method pathname = ResponsesEndpoint
      \<longleftrightarrow> startsWith pathname ''/responses'' \<or> startsWith pathname ''/v1/responses'' \<or>
          startsWith pathname ''responses'') \<and>
   (dispatch method pathname = Health
      \<longleftrightarrow> method = ''GET'' \<and>
          (pathname = ''/health'' \<or> pathname = ''/v1/health'' \<or> pathname = ''health'')) \<and>
   (dispatch method pathname = ResponsesEndpoint
      \<longleftrightarrow> startsWith (normalizePath pathname) ''/responses'') \<and>
   (dispatch method pathname = NotFound
      \<longleftrightarrow> \<not> startsWith (normalizePath pathname) ''/responses'' \<and>
          \<not> (method = ''GET'' \<and> normalizePath pathname = ''/health'')) \<and>
   normalizePath ''v1/responses'' = ''/v1/responses'' \<and>
   normalizePath ''/v1/responses'' = ''/responses'' \<and>
   normalizePath ''/v1'' = ''/'' \<and>
   normalizePath ''/v1/v1/responses'' = ''/v1/responses'' \<and>
   dispatch method ''/responses/extra'' = ResponsesEndpoint \<and>
   dispatch method ''/responsesfoo'' = ResponsesEndpoint \<and>
   dispatch method ''/v1/responsesfoo'' = ResponsesEndpoint \<and>
   dispatch method ''responses'' = ResponsesEndpoint \<and>
   dispatch method ''/v1/v1/responses'' = NotFound \<and>
   dispatch method ''/v1responses'' = NotFound \<and>
   dispatch ''GET'' ''/v1/health'' = Health \<and>
   dispatch ''POST'' ''/health'' = NotFound"
proof -
  have np: "normalizePath pathname =
      (if startsWith pathname ''/v1/'' then drop 3 pathname
       else if startsWith pathname ''/'' then (if pathname = ''/v1'' then ''/'' else pathname)
       else ''/'' @ pathname)"
    by (auto simp: normalizePath_def startsWith_iff)
  have r: "startsWith (normalizePath pathname) ''/responses''
      \<longleftrightarrow> startsWith pathname ''/responses'' \<or> startsWith pathname ''/v1/responses'' \<or>
          startsWith pathname ''responses''"
    unfolding np by (auto simp: startsWith_iff)
  have h: "normalizePath pathname = ''/health''
      \<longleftrightarrow> pathname = ''/health'' \<or> pathname = ''/v1/health'' \<or> pathname = ''health''"
    unfolding np by (auto simp: startsWith_iff)
  have nh: "\<not> startsWith ''/health'' ''/responses''" by simp
  have d: "dispatch method pathname =
      (if method = ''GET'' \<and> normalizePath pathname = ''/health'' then Health
       else if startsWith (normalizePath pathname) ''/responses'' then ResponsesEndpoint
       else NotFound)"
    by (simp add: dispatch_def Let_def)
  have c1: "dispatch method pathname = ResponsesEndpoint
      \<longleftrightarrow> startsWith (normalizePath pathname) ''/responses''"
    unfolding d using nh by auto
  have c2: "dispatch method pathname = Health
      \<longleftrightarrow> method = ''GET'' \<and> normalizePath pathname = ''/health''"
    unfolding d by auto
  have c3: "dispatch method pathname = NotFound
      \<longleftrightarrow> \<not> startsWith (normalizePath pathname) ''/responses'' \<and>
          \<not> (method = ''GET'' \<and> normalizePath pathname = ''/health'')"
    unfolding d by auto
  have e: "normalizePath ''v1/responses'' = ''/v1/responses'' \<and>
   normalizePath ''/v1/responses'' = ''/responses'' \<and>
   normalizePath ''/v1'' = ''/'' \<and>
   normalizePath ''/v1/v1/responses'' = ''/v1/responses'' \<and>
   dispatch method ''/responses/extra'' = ResponsesEndpoint \<and>
   dispatch method ''/responsesfoo'' = ResponsesEndpoint \<and>
   dispatch method ''/v1/responsesfoo'' = ResponsesEndpoint \<and>
   dispatch method ''responses'' = ResponsesEndpoint \<and>
   dispatch method ''/v1/v1/responses'' = NotFound \<and>
   dispatch method ''/v1responses'' = NotFound \<and>
   dispatch ''GET'' ''/v1/health'' = Health \<and>
   dispatch ''POST'' ''/health'' = NotFound"
    by (simp add: dispatch_def Let_def normalizePath_def)
  from c1 c2 c3 r h e show ?thesis by simp
qed

section \<open>Stateless input filtering\<close>

lemma getProp_withoutId_id: "getProp (withoutId item) ''id'' = None"
  unfolding getProp_def withoutId_def
  by (induction item) auto

lemma getProp_withoutId_other: "k \<noteq> ''id'' \<Longrightarrow> getProp (withoutId item) k = getProp item k"
  unfolding getProp_def withoutId_def
  by (induction item) auto

text \<open>
  The source strips the identifier under the test \<open>if (item.id)\<close>, which is a
  truthiness test: an item whose \<open>id\<close> is the empty string passes through with the
  property still in place.
\<close>

theorem filterInput_keeps_falsy_id:
  "filterInput (Some [[(''id'', JStr ''''), (''type'', JStr ''message''), (''role'', JStr ''user'')]])
     = Some [[(''id'', JStr ''''), (''type'', JStr ''message''), (''role'', JStr ''user'')]] \<and>
   getProp [(''id'', JStr ''''), (''type'', JStr ''message''), (''role'', JStr ''user'')] ''id''
     = Some (JStr '''')"
  by (simp add: filterInput_def getProp_def)

text \<open>
  C5 (as amended).  For every input list, the filtered list consists of the original
  items whose type is not \<open>item_reference\<close>, in their original order and without
  deduplication: an item whose \<open>id\<close> is truthy appears with its \<open>id\<close> property
  removed and no other change, and an item whose \<open>id\<close> is absent or falsy appears
  unchanged, a falsy \<open>id\<close> still in place.  So each item is either unchanged or
  without its \<open>id\<close> property, and no item of the filtered list carries a truthy
  identifier.
\<close>

theorem filterInput_stateless:
  "\<exists>out. filterInput (Some items) = Some out \<and>
     list_all2 (\<lambda>out_item item.
         (truthy (getProp item ''id'') \<and> out_item = withoutId item \<and> getProp out_item ''id'' = None) \<or>
         (\<not> truthy (getProp item ''id'') \<and> out_item = item)) out
       (filter (\<lambda>item. getProp item ''type'' \<noteq> Some (JStr ''item_reference'')) items) \<and>
     list_all2 (\<lambda>out_item item. out_item = item \<or> out_item = withoutId item) out
       (filter (\<lambda>item. getProp item ''type'' \<noteq> Some (JStr ''item_reference'')) items) \<and>
     (\<forall>out_item \<in> set out. \<not> truthy (getProp out_item ''id''))"
proof -
  let ?kept = "filter (\<lambda>item. getProp item ''type'' \<noteq> Some (JStr ''item_reference'')) items"
  let ?strip = "\<lambda>item. if truthy (getProp item ''id'') then withoutId item else item"
  have out: "filterInput (Some items) = Some (map ?strip ?kept)"
    by (simp add: filterInput_def)
  have exact: "list_all2 (\<lambda>out_item item.
         (truthy (getProp item ''id'') \<and> out_item = withoutId item \<and> getProp out_item ''id'' = None) \<or>
         (\<not> truthy (getProp item ''id'') \<and> out_item = item))
               (map ?strip ?kept) ?kept"
    by (simp add: list_all2_map1 list.rel_refl getProp_withoutId_id)
  have rel: "list_all2 (\<lambda>out_item item. out_item = item \<or> out_item = withoutId item)
               (map ?strip ?kept) ?kept"
    by (simp add: list_all2_map1 list.rel_refl)
  have noid: "\<forall>out_item \<in> set (map ?strip ?kept). \<not> truthy (getProp out_item ''id'')"
    by (auto simp: getProp_withoutId_id)
  from out exact rel noid show ?thesis by blast
qed

theorem filterInput_stateless_witness:
  "filterInput (Some
     [[(''id'', JStr ''msg_1''), (''type'', JStr ''message''), (''role'', JStr ''user'')],
      [(''type'', JStr ''item_reference''), (''id'', JStr ''ref_1'')],
      [(''type'', JStr ''message''), (''role'', JStr ''user'')],
      [(''id'', JStr []), (''type'', JStr ''function_call'')],
      [(''id'', JStr ''msg_1''), (''type'', JStr ''message''), (''role'', JStr ''user'')]])
   = Some
     [[(''type'', JStr ''message''), (''role'', JStr ''user'')],
      [(''type'', JStr ''message''), (''role'', JStr ''user'')],
      [(''id'', JStr []), (''type'', JStr ''function_call'')],
      [(''type'', JStr ''message''), (''role'', JStr ''user'')]] \<and>
   \<not> truthy (getProp [(''type'', JStr ''message''), (''role'', JStr ''user'')] ''id'') \<and>
   \<not> truthy (getProp [(''id'', JStr []), (''type'', JStr ''function_call'')] ''id'')"
proof -
  let ?X = "[[(''id'', JStr ''msg_1''), (''type'', JStr ''message''), (''role'', JStr ''user'')],
      [(''type'', JStr ''item_reference''), (''id'', JStr ''ref_1'')],
      [(''type'', JStr ''message''), (''role'', JStr ''user'')],
      [(''id'', JStr []), (''type'', JStr ''function_call'')],
      [(''id'', JStr ''msg_1''), (''type'', JStr ''message''), (''role'', JStr ''user'')]]"
  let ?Y = "[[(''type'', JStr ''message''), (''role'', JStr ''user'')],
      [(''type'', JStr ''message''), (''role'', JStr ''user'')],
      [(''id'', JStr []), (''type'', JStr ''function_call'')],
      [(''type'', JStr ''message''), (''role'', JStr ''user'')]]"
  have run: "filterInput (Some ?X) = Some ?Y"
    by (simp add: filterInput_def getProp_def withoutId_def)
  from filterInput_stateless [of ?X] obtain out where
    out: "filterInput (Some ?X) = Some out" and
    noid: "\<forall>out_item \<in> set out. \<not> truthy (getProp out_item ''id'')"
    by blast
  from out run have "out = ?Y" by simp
  with noid have
    "\<not> truthy (getProp [(''type'', JStr ''message''), (''role'', JStr ''user'')] ''id'') \<and>
     \<not> truthy (getProp [(''id'', JStr []), (''type'', JStr ''function_call'')] ''id'')"
    by simp
  with run show ?thesis by (intro conjI) simp_all
qed

section \<open>Reasoning effort\<close>

text \<open>
  When the original model name contains \<open>codex\<close> in lower case, the resolved effort is
  never \<open>minimal\<close>.
\<close>

lemma getReasoningConfig_codex_not_minimal:
  "includes_str m ''codex'' \<Longrightarrow> effort (getReasoningConfig (Some m) cfg) \<noteq> ''minimal''"
  by (simp add: getReasoningConfig_def Let_def)

text \<open>
  C4.  The claim is that a request whose model normalises to the codex variant never
  leaves the transformer with effort \<open>minimal\<close>.  The downgrade is decided by a
  case-sensitive \<open>includes("codex")\<close> on the original name, while normalisation
  lower-cases first: for the model \<open>GPT-5-CODEX\<close> with a configured effort of
  \<open>minimal\<close>, and for \<open>gpt-5-Codex-mini\<close> with the lightweight default, the
  transformed body names \<open>gpt-5-codex\<close> and still carries effort \<open>minimal\<close>.
\<close>

theorem transformRequestBody_uppercase_codex_minimal:
  "model (transformRequestBody prompts (body\<lparr>model := Some ''GPT-5-CODEX''\<rparr>) codexInstructions
            \<lparr>global_options = emptyOptions\<lparr>reasoningEffort := Some ''minimal''\<rparr>, models = []\<rparr>
            codexMode)
     = Some ''gpt-5-codex'' \<and>
   reasoning (transformRequestBody prompts (body\<lparr>model := Some ''GPT-5-CODEX''\<rparr>) codexInstructions
            \<lparr>global_options = emptyOptions\<lparr>reasoningEffort := Some ''minimal''\<rparr>, models = []\<rparr>
            codexMode)
     = Some \<lparr>effort_opt = Some ''minimal'', summary_opt = Some ''auto''\<rparr> \<and>
   model (transformRequestBody prompts (body\<lparr>model := Some ''gpt-5-Codex-mini''\<rparr>) codexInstructions
            \<lparr>global_options = emptyOptions, models = []\<rparr> codexMode)
     = Some ''gpt-5-codex'' \<and>
   reasoning (transformRequestBody prompts (body\<lparr>model := Some ''gpt-5-Codex-mini''\<rparr>) codexInstructions
            \<lparr>global_options = emptyOptions, models = []\<rparr> codexMode)
     = Some \<lparr>effort_opt = Some ''minimal'', summary_opt = Some ''auto''\<rparr>"
proof -
  have n1: "normalizeModel (Some ''GPT-5-CODEX'') = ''gpt-5-codex''"
    by (simp add: normalizeModel_def toLowerCase_def toLowerChar_def)
  have n2: "normalizeModel (Some ''gpt-5-Codex-mini'') = ''gpt-5-codex''"
    by (simp add: normalizeModel_def toLowerCase_def toLowerChar_def)
  have c1: "getModelConfig ''GPT-5-CODEX''
              \<lparr>global_options = emptyOptions\<lparr>reasoningEffort := Some ''minimal''\<rparr>, models = []\<rparr>
            = emptyOptions\<lparr>reasoningEffort := Some ''minimal''\<rparr>"
    by (simp add: getModelConfig_def spreadOptions_def emptyOptions_def)
  have c2: "getModelConfig ''gpt-5-Codex-mini'' \<lparr>global_options = emptyOptions, models = []\<rparr>
            = emptyOptions"
    by (simp add: getModelConfig_def spreadOptions_def emptyOptions_def)
  have r1: "getReasoningConfig (Some ''GPT-5-CODEX'') (emptyOptions\<lparr>reasoningEffort := Some ''minimal''\<rparr>)
            = \<lparr>effort = ''minimal'', summary = ''auto''\<rparr>"
    by (simp add: getReasoningConfig_def emptyOptions_def orElse_def)
  have r2: "getReasoningConfig (Some ''gpt-5-Codex-mini'') emptyOptions
            = \<lparr>effort = ''minimal'', summary = ''auto''\<rparr>"
    by (simp add: getReasoningConfig_def emptyOptions_def orElse_def)
  show ?thesis
    by (simp add: transformRequestBody_def Let_def n1 n2 c1 c2 r1 r2 orElse_def
        split: option.split)
qed

section \<open>The fast path of \<open>ensureFreshCredentials\<close>\<close>

text \<open>
  C7.  When the in-memory credentials exist and are valid at the time of the call,
  \<open>ensureFreshCredentials\<close> returns at once: the credentials and the refresh promise
  are as before, and so is the world, so no event (network call, login flow, file read
  or write) is added and no time passes.  In particular, a call that follows one which
  returned with credentials valid at that moment changes nothing.
\<close>

theorem ensureFreshCredentials_fast_path:
  "(credentials authState = Some creds \<and> hasValidAccess (clock w) (Some creds)
      \<longrightarrow> ensureFreshCredentials ext (authState, w) = (Inr (), authState, w)) \<and>
   (ensureFreshCredentials ext s0 = (Inr (), authState, w) \<and>
    hasValidAccess (clock w) (credentials authState)
      \<longrightarrow> ensureFreshCredentials ext (authState, w) = (Inr (), authState, w))"
  by (auto simp: ensureFreshCredentials_def Let_def hasValidAccess_def split: option.splits)

theorem ensureFreshCredentials_fast_path_witness:
  "ensureFreshCredentials
     \<lparr>refreshAccessToken = (\<lambda>t r. TokenSuccess ''a2'' ''r2'' (t + 3600000)),
      exchangeAuthorizationCode = (\<lambda>t c. TokenFailed),
      chatgpt_account_id = (\<lambda>a. Some ''acct''), authorizationCode = None, latency = 5\<rparr>
     (\<lparr>credentials = Some \<lparr>access = ''a2'', refresh = ''r2'', expires = 3601005, accountId = ''acct''\<rparr>,
       refreshPromise = None\<rparr>,
      \<lparr>tokenFile = Some \<lparr>access = ''a2'', refresh = ''r2'', expires = 3601005, accountId = ''acct''\<rparr>,
       clock = 1005,
       events = [RefreshCall ''r'',
                 FileWrite \<lparr>access = ''a2'', refresh = ''r2'', expires = 3601005, accountId = ''acct''\<rparr>]\<rparr>)
   = (Inr (),
      \<lparr>credentials = Some \<lparr>access = ''a2'', refresh = ''r2'', expires = 3601005, accountId = ''acct''\<rparr>,
       refreshPromise = None\<rparr>,
      \<lparr>tokenFile = Some \<lparr>access = ''a2'', refresh = ''r2'', expires = 3601005, accountId = ''acct''\<rparr>,
       clock = 1005,
       events = [RefreshCall ''r'',
                 FileWrite \<lparr>access = ''a2'', refresh = ''r2'', expires = 3601005, accountId = ''acct''\<rparr>]\<rparr>)"
proof -
  let ?ext = "\<lparr>refreshAccessToken = (\<lambda>t r. TokenSuccess ''a2'' ''r2'' (t + 3600000)),
      exchangeAuthorizationCode = (\<lambda>t c. TokenFailed),
      chatgpt_account_id = (\<lambda>a. Some ''acct''), authorizationCode = None, latency = 5\<rparr>"
  let ?c = "\<lparr>access = ''a2'', refresh = ''r2'', expires = 3601005, accountId = ''acct''\<rparr>"
  let ?a = "\<lparr>credentials = Some ?c, refreshPromise = None\<rparr>"
  let ?w = "\<lparr>tokenFile = Some ?c, clock = 1005, events = [RefreshCall ''r'', FileWrite ?c]\<rparr>"
  let ?s0 = "(\<lparr>credentials = Some \<lparr>access = ''a'', refresh = ''r'', expires = 0, accountId = ''x''\<rparr>,
              refreshPromise = None\<rparr>,
             \<lparr>tokenFile = None, clock = 1000, events = []\<rparr>)"
  have first: "ensureFreshCredentials ?ext ?s0 = (Inr (), ?a, ?w)"
    by (simp add: ensureFreshCredentials_def settleRefresh_def refreshResponse_def refreshRequest_def
        adoptTokens_def extractAccountId_def persistCredentials_def record_event_def advance_def
        hasValidAccess_def Let_def)
  have valid: "hasValidAccess (clock ?w) (credentials ?a)"
    by (simp add: hasValidAccess_def)
  from ensureFreshCredentials_fast_path [of ?a ?c ?w ?ext ?s0] first valid
  show ?thesis by simp
qed

section \<open>Error replies of the proxied endpoint\<close>

text \<open>
  A call of \<open>ensureFreshCredentials\<close> that returns, run on its own, always leaves
  credentials in place: every path that ends without credentials ends in a thrown
  exception of the login flow.
\<close>

lemma bootstrapCredentials_returns_credentials:
  assumes "bootstrapCredentials ext s = (Inr u, authState, w)"
  shows "credentials authState \<noteq> None"
  using assms
  by (auto simp: bootstrapCredentials_def Let_def hasValidAccess_def
      split: if_splits option.splits prod.splits sum.splits)

lemma ensureFreshCredentials_returns_credentials:
  assumes "ensureFreshCredentials ext s = (Inr u, authState, w)"
  shows "credentials authState \<noteq> None"
proof (cases "credentials (fst s)")
  case None
  with assms have "bootstrapCredentials ext s = (Inr u, authState, w)"
    by (simp add: ensureFreshCredentials_def Let_def)
  then show ?thesis by (rule bootstrapCredentials_returns_credentials)
next
  case (Some current)
  let ?started = "if refreshPromise (fst s) = None
       then ((fst s)\<lparr>refreshPromise := Some current\<rparr>, refreshRequest current (snd s))
       else s"
  let ?settled = "settleRefresh ext ?started"
  show ?thesis
  proof (cases "hasValidAccess (clock (snd s)) (credentials (fst s))")
    case True
    with Some assms have "authState = fst s"
      by (simp add: ensureFreshCredentials_def Let_def)
    with Some show ?thesis by simp
  next
    case False
    show ?thesis
    proof (cases "credentials (fst ?settled) = None")
      case True
      with Some False assms have "bootstrapCredentials ext ?settled = (Inr u, authState, w)"
        by (simp add: ensureFreshCredentials_def Let_def)
      then show ?thesis by (rule bootstrapCredentials_returns_credentials)
    next
      case notNone: False
      with Some False assms have "(authState, w) = ?settled"
        by (simp add: ensureFreshCredentials_def Let_def)
      then have "authState = fst ?settled" by (metis fst_conv)
      with notNone show ?thesis by simp
    qed
  qed
qed

lemma handleResponsesEndpoint_rejections:
  "(req_method req \<noteq> ''POST'' \<longrightarrow>
      handleResponsesEndpoint bk ext penv context req s
        = (Inr (JsonReply 405 (JObj [(''error'', JStr ''Method not allowed'')])), s)) \<and>
   (req_method req = ''POST'' \<and> req_body req = [] \<longrightarrow>
      handleResponsesEndpoint bk ext penv context req s
        = (Inr (JsonReply 400 (JObj [(''error'', JStr ''Request body is required'')])), s)) \<and>
   (req_method req = ''POST'' \<and> req_body req \<noteq> [] \<and> JSON_parse bk (req_body req) = Inl message \<longrightarrow>
      handleResponsesEndpoint bk ext penv context req s
        = (Inr (JsonReply 400 (JObj [(''error'', JStr (''Invalid JSON body: '' @ message))])), s))"
  by (simp add: handleResponsesEndpoint_def sendJson_def)

lemma handleResponsesEndpoint_no_401:
  "fst (handleResponsesEndpoint bk ext penv context req s)
     \<noteq> Inr (JsonReply 401 (JObj [(''error'', JStr ''Authentication required'')]))"
proof -
  have "credentials authState \<noteq> None"
    if "ensureFreshCredentials ext s = (Inr u, authState, w)" for u authState w
    using that by (rule ensureFreshCredentials_returns_credentials)
  then show ?thesis
    by (auto simp: handleResponsesEndpoint_def sendJson_def forwardResponse_def callUpstream_def
        Let_def split: sum.splits prod.splits option.splits if_splits)
qed

text \<open>
  C9.  The claim is that a POST for which no credentials can be obtained is answered
  with 401 and the payload \<open>Authentication required\<close>.  With no credentials in memory,
  no token file and a login whose code exchange fails, \<open>ensureFreshCredentials\<close>
  throws, the handler never reaches its 401 guard, and the listener answers 500 with
  \<open>Internal server error\<close>.  No upstream call is made.
\<close>

theorem handleResponsesEndpoint_login_failure_500:
  "handleResponsesEndpoint
     \<lparr>JSON_parse = (\<lambda>t. Inr [(''model'', JStr ''gpt-5'')]), CODEX_BASE_URL = ''https://backend'',
      rewriteUrlForCodex = (\<lambda>u. u), fetch = (\<lambda>u a t b. Inl (Error ''offline'')),
      convertSseToJson = (\<lambda>r. Inr r), transformRequestForCodex = (\<lambda>b u c. None)\<rparr>
     \<lparr>refreshAccessToken = (\<lambda>t r. TokenFailed), exchangeAuthorizationCode = (\<lambda>t c. TokenFailed),
      chatgpt_account_id = (\<lambda>a. None), authorizationCode = Some ''code'', latency = 0\<rparr>
     penv context
     \<lparr>req_method = ''POST'', req_pathname = ''/v1/responses'', req_search = [],
      req_body = ''{\"model\":\"gpt-5\"}''\<rparr>
     (\<lparr>credentials = None, refreshPromise = None\<rparr>, \<lparr>tokenFile = None, clock = 0, events = []\<rparr>)
   = (Inl (Error ''Failed to exchange authorization code for tokens''),
      \<lparr>credentials = None, refreshPromise = None\<rparr>,
      \<lparr>tokenFile = None, clock = 0, events = [FileRead, LoginFlow]\<rparr>) \<and>
   fst (requestListener
     (handleResponsesEndpoint
       \<lparr>JSON_parse = (\<lambda>t. Inr [(''model'', JStr ''gpt-5'')]), CODEX_BASE_URL = ''https://backend'',
        rewriteUrlForCodex = (\<lambda>u. u), fetch = (\<lambda>u a t b. Inl (Error ''offline'')),
        convertSseToJson = (\<lambda>r. Inr r), transformRequestForCodex = (\<lambda>b u c. None)\<rparr>
       \<lparr>refreshAccessToken = (\<lambda>t r. TokenFailed), exchangeAuthorizationCode = (\<lambda>t c. TokenFailed),
        chatgpt_account_id = (\<lambda>a. None), authorizationCode = Some ''code'', latency = 0\<rparr>
       penv context)
     \<lparr>req_method = ''POST'', req_pathname = ''/v1/responses'', req_search = [],
      req_body = ''{\"model\":\"gpt-5\"}''\<rparr>
     (\<lparr>credentials = None, refreshPromise = None\<rparr>, \<lparr>tokenFile = None, clock = 0, events = []\<rparr>))
   = JsonReply 500 (JObj [(''error'', JStr ''Internal server error'')])"
proof -
  let ?ext = "\<lparr>refreshAccessToken = (\<lambda>t r. TokenFailed), exchangeAuthorizationCode = (\<lambda>t c. TokenFailed),
      chatgpt_account_id = (\<lambda>a. None), authorizationCode = Some ''code'', latency = 0\<rparr>"
  let ?s = "(\<lparr>credentials = None, refreshPromise = None\<rparr>, \<lparr>tokenFile = None, clock = 0, events = []\<rparr>)"
  have auth: "ensureFreshCredentials ?ext ?s
      = (Inl (Error ''Failed to exchange authorization code for tokens''),
         \<lparr>credentials = None, refreshPromise = None\<rparr>,
         \<lparr>tokenFile = None, clock = 0, events = [FileRead, LoginFlow]\<rparr>)"
    by (simp add: ensureFreshCredentials_def bootstrapCredentials_def loadStoredCredentials_def
        interactiveLogin_def adoptTokens_def record_event_def advance_def orElse_def
        hasValidAccess_def Let_def)
  have route: "dispatch ''POST'' ''/v1/responses'' = ResponsesEndpoint"
    by (simp add: dispatch_def normalizePath_def Let_def)
  show ?thesis
    by (simp add: handleResponsesEndpoint_def requestListener_def auth route sendJson_def Let_def)
qed

section \<open>Reading and writing properties\<close>

lemma getProp_deleteProp_other: "k \<noteq> k' \<Longrightarrow> getProp (deleteProp obj k') k = getProp obj k"
  unfolding getProp_def deleteProp_def
  by (induction obj) auto

lemma getProp_setProp_same: "getProp (setProp obj k v) k = Some v"
proof (cases "k \<in> fst ` set obj")
  case True
  then have "map_of (map (\<lambda>kv. if fst kv = k then (k, v) else kv) obj) k = Some v"
    by (induction obj) auto
  with True show ?thesis by (simp add: getProp_def setProp_def)
next
  case False
  then have "map_of obj k = None" by (simp add: map_of_eq_None_iff)
  then have "map_of (obj @ [(k, v)]) k = Some v" by (simp add: map_add_def)
  with False show ?thesis by (simp add: getProp_def setProp_def)
qed

lemma getProp_setProp_other:
  assumes "k \<noteq> k'"
  shows "getProp (setProp obj k' v) k = getProp obj k"
proof -
  have "map_of (map (\<lambda>kv. if fst kv = k' then (k', v) else kv) obj) k = map_of obj k"
    using assms by (induction obj) auto
  moreover have "map_of (obj @ [(k', v)]) k = map_of obj k"
    using assms by (simp add: map_add_def split: option.split)
  ultimately show ?thesis by (simp add: getProp_def setProp_def)
qed

lemma getProp_stripMetadata_other:
  "k \<noteq> ''metadata'' \<Longrightarrow> getProp (stripMetadata parsedBody) k = getProp parsedBody k"
  by (simp add: stripMetadata_def getProp_deleteProp_other)

section \<open>Conversion failure\<close>





section \<open>Instruction resolution\<close>

text \<open>
  \<open>trim\<close> removes white space from both ends and nothing else; it leaves the empty
  string exactly when the string consists of white space only.
\<close>

lemma whiteSpace_char: "isSpaceChar a \<Longrightarrow> [a] \<in> set whiteSpace"
  unfolding isSpaceChar_def whiteSpace_def by auto

lemma whiteSpace_pair: "isSpacePair a b \<Longrightarrow> [a, b] \<in> set whiteSpace"
  unfolding isSpacePair_def whiteSpace_def by simp

lemma whiteSpace_triple: "isSpaceTriple a b c \<Longrightarrow> [a, b, c] \<in> set whiteSpace"
  unfolding isSpaceTriple_def whiteSpace_def by (elim disjE conjE; simp; elim disjE; simp)

lemma whiteSpace_cases:
  "w \<in> set whiteSpace \<Longrightarrow>
     (\<exists>a. w = [a] \<and> isSpaceChar a) \<or> (\<exists>a b. w = [a, b] \<and> isSpacePair a b) \<or>
     (\<exists>a b c. w = [a, b, c] \<and> isSpaceTriple a b c)"
  unfolding whiteSpace_def set_simps insert_iff empty_iff
  by (elim disjE; simp add: isSpaceChar_def isSpacePair_def isSpaceTriple_def)

lemma space_exclusive:
  "isSpacePair a b \<Longrightarrow> \<not> isSpaceChar a"
  "isSpaceTriple a b c \<Longrightarrow> \<not> isSpaceChar a"
  "isSpaceTriple a b c \<Longrightarrow> \<not> isSpacePair a b"
  unfolding isSpaceChar_def isSpacePair_def isSpaceTriple_def by auto

lemma trimStart_char: "isSpaceChar a \<Longrightarrow> trimStart (a # r) = trimStart r"
proof -
  assume a: "isSpaceChar a"
  show ?thesis
  proof (cases r)
    case Nil
    with a show ?thesis by simp
  next
    case (Cons b r1)
    with a show ?thesis by (cases r1) simp_all
  qed
qed

lemma trimStart_pair: "isSpacePair a b \<Longrightarrow> trimStart (a # b # r) = trimStart r"
proof -
  assume p: "isSpacePair a b"
  then have "\<not> isSpaceChar a" by (rule space_exclusive(1))
  with p show ?thesis by (cases r) simp_all
qed

lemma trimStart_triple: "isSpaceTriple a b c \<Longrightarrow> trimStart (a # b # c # r) = trimStart r"
proof -
  assume t: "isSpaceTriple a b c"
  then have "\<not> isSpaceChar a" "\<not> isSpacePair a b" by (rule space_exclusive)+
  with t show ?thesis by simp
qed

lemma trimStart_whiteSpace:
  assumes "w \<in> set whiteSpace"
  shows "trimStart (w @ r) = trimStart r"
proof -
  from assms consider a where "w = [a]" "isSpaceChar a"
    | a b where "w = [a, b]" "isSpacePair a b"
    | a b c where "w = [a, b, c]" "isSpaceTriple a b c"
    using whiteSpace_cases by blast
  then show ?thesis
  proof cases
    case 1
    then show ?thesis using trimStart_char [of a r] by simp
  next
    case 2
    then show ?thesis using trimStart_pair [of a b r] by simp
  next
    case 3
    then show ?thesis using trimStart_triple [of a b c r] by simp
  qed
qed

lemma trimStart_onlyWhiteSpace: "onlyWhiteSpace s \<Longrightarrow> trimStart s = []"
  by (induction rule: onlyWhiteSpace.induct) (simp_all only: trimStart_whiteSpace trimStart.simps)

lemma onlyWhiteSpace_append:
  "onlyWhiteSpace s \<Longrightarrow> onlyWhiteSpace t \<Longrightarrow> onlyWhiteSpace (s @ t)"
proof (induction rule: onlyWhiteSpace.induct)
  case empty
  then show ?case by simp
next
  case (more w r)
  from more.IH more.prems have "onlyWhiteSpace (r @ t)" .
  with more.hyps(1) have "onlyWhiteSpace (w @ (r @ t))" by (rule onlyWhiteSpace.more)
  then show ?case by simp
qed

lemma onlyWhiteSpace_single: "w \<in> set whiteSpace \<Longrightarrow> onlyWhiteSpace w"
  using onlyWhiteSpace.more [OF _ onlyWhiteSpace.empty, of w] by simp

lemma onlyWhiteSpace_Cons:
  "onlyWhiteSpace w \<Longrightarrow> onlyWhiteSpace p \<Longrightarrow> s = w @ p @ t \<Longrightarrow>
     \<exists>q. onlyWhiteSpace q \<and> s = q @ t"
  using onlyWhiteSpace_append [of w p] by (intro exI [of _ "w @ p"]) simp

lemma onlyWhiteSpace_snoc:
  "onlyWhiteSpace w \<Longrightarrow> onlyWhiteSpace p \<Longrightarrow> r = rev w @ rev p @ t \<Longrightarrow>
     \<exists>q. onlyWhiteSpace q \<and> r = rev q @ t"
  using onlyWhiteSpace_append [of p w] by (intro exI [of _ "p @ w"]) simp

lemma onlyWhiteSpace_Nil: "s = t \<Longrightarrow> \<exists>q. onlyWhiteSpace q \<and> s = q @ t"
  using onlyWhiteSpace.empty by (intro exI [of _ "[]"]) simp

lemma onlyWhiteSpace_rev_Nil: "s = t \<Longrightarrow> \<exists>q. onlyWhiteSpace q \<and> s = rev q @ t"
  using onlyWhiteSpace.empty by (intro exI [of _ "[]"]) simp

lemma trimStart_prefix: "\<exists>p. onlyWhiteSpace p \<and> s = p @ trimStart s"
proof (induction s rule: trimStart.induct)
  case (1 a b c rest)
  consider "isSpaceChar a" | "\<not> isSpaceChar a" "isSpacePair a b"
    | "\<not> isSpaceChar a" "\<not> isSpacePair a b" "isSpaceTriple a b c"
    | "\<not> isSpaceChar a" "\<not> isSpacePair a b" "\<not> isSpaceTriple a b c" by blast
  then show ?case
  proof cases
    case 1
    with "1.IH"(1) obtain p where p: "onlyWhiteSpace p" "b # c # rest = p @ trimStart (b # c # rest)"
      by blast
    have t: "trimStart (a # b # c # rest) = trimStart (b # c # rest)" using 1 by simp
    have w: "onlyWhiteSpace [a]" using 1 by (simp add: whiteSpace_char onlyWhiteSpace_single)
    have "a # b # c # rest = [a] @ p @ trimStart (a # b # c # rest)"
      by (simp only: t append_Cons append_Nil p(2) [symmetric])
    with w p(1) show ?thesis by (rule onlyWhiteSpace_Cons)
  next
    case 2
    with "1.IH"(2) obtain p where p: "onlyWhiteSpace p" "c # rest = p @ trimStart (c # rest)"
      by blast
    have t: "trimStart (a # b # c # rest) = trimStart (c # rest)" using 2 by simp
    have w: "onlyWhiteSpace [a, b]" using 2 by (simp add: whiteSpace_pair onlyWhiteSpace_single)
    have "a # b # c # rest = [a, b] @ p @ trimStart (a # b # c # rest)"
      by (simp only: t append_Cons append_Nil p(2) [symmetric])
    with w p(1) show ?thesis by (rule onlyWhiteSpace_Cons)
  next
    case 3
    with "1.IH"(3) obtain p where p: "onlyWhiteSpace p" "rest = p @ trimStart rest"
      by blast
    have t: "trimStart (a # b # c # rest) = trimStart rest" using 3 by simp
    have w: "onlyWhiteSpace [a, b, c]" using 3 by (simp add: whiteSpace_triple onlyWhiteSpace_single)
    have "a # b # c # rest = [a, b, c] @ p @ trimStart (a # b # c # rest)"
      by (simp only: t append_Cons append_Nil p(2) [symmetric])
    with w p(1) show ?thesis by (rule onlyWhiteSpace_Cons)
  next
    case 4
    then have "a # b # c # rest = trimStart (a # b # c # rest)" by simp
    then show ?thesis by (rule onlyWhiteSpace_Nil)
  qed
next
  case (2 a b)
  consider "isSpaceChar a" | "\<not> isSpaceChar a" "isSpacePair a b"
    | "\<not> isSpaceChar a" "\<not> isSpacePair a b" by blast
  then show ?case
  proof cases
    case 1
    with "2.IH" obtain p where p: "onlyWhiteSpace p" "[b] = p @ trimStart [b]" by blast
    have t: "trimStart [a, b] = trimStart [b]" using 1 by simp
    have w: "onlyWhiteSpace [a]" using 1 by (simp add: whiteSpace_char onlyWhiteSpace_single)
    have "[a, b] = [a] @ p @ trimStart [a, b]"
      by (simp only: t append_Cons append_Nil p(2) [symmetric])
    with w p(1) show ?thesis by (rule onlyWhiteSpace_Cons)
  next
    case 2
    then have w: "onlyWhiteSpace [a, b]" by (simp add: whiteSpace_pair onlyWhiteSpace_single)
    have "[a, b] = [a, b] @ [] @ trimStart [a, b]" using 2 by simp
    with w onlyWhiteSpace.empty show ?thesis by (rule onlyWhiteSpace_Cons)
  next
    case 3
    then have "[a, b] = trimStart [a, b]" by simp
    then show ?thesis by (rule onlyWhiteSpace_Nil)
  qed
next
  case (3 a)
  show ?case
  proof (cases "isSpaceChar a")
    case True
    then have w: "onlyWhiteSpace [a]" by (simp add: whiteSpace_char onlyWhiteSpace_single)
    have "[a] = [a] @ [] @ trimStart [a]" using True by simp
    with w onlyWhiteSpace.empty show ?thesis by (rule onlyWhiteSpace_Cons)
  next
    case False
    then have "[a] = trimStart [a]" by simp
    then show ?thesis by (rule onlyWhiteSpace_Nil)
  qed
next
  case 4
  have "[] = trimStart []" by simp
  then show ?case by (rule onlyWhiteSpace_Nil)
qed

lemma trimEndReversed_suffix: "\<exists>p. onlyWhiteSpace p \<and> r = rev p @ trimEndReversed r"
proof (induction r rule: trimEndReversed.induct)
  case (1 c b a rest)
  consider "isSpaceChar c" | "\<not> isSpaceChar c" "isSpacePair b c"
    | "\<not> isSpaceChar c" "\<not> isSpacePair b c" "isSpaceTriple a b c"
    | "\<not> isSpaceChar c" "\<not> isSpacePair b c" "\<not> isSpaceTriple a b c" by blast
  then show ?case
  proof cases
    case 1
    with "1.IH"(1) obtain p where p: "onlyWhiteSpace p"
      "b # a # rest = rev p @ trimEndReversed (b # a # rest)" by blast
    have t: "trimEndReversed (c # b # a # rest) = trimEndReversed (b # a # rest)" using 1 by simp
    have w: "onlyWhiteSpace [c]" using 1 by (simp add: whiteSpace_char onlyWhiteSpace_single)
    have "c # b # a # rest = rev [c] @ rev p @ trimEndReversed (c # b # a # rest)"
      by (simp only: t rev.simps append_Cons append_Nil p(2) [symmetric])
    with w p(1) show ?thesis by (rule onlyWhiteSpace_snoc)
  next
    case 2
    with "1.IH"(2) obtain p where p: "onlyWhiteSpace p"
      "a # rest = rev p @ trimEndReversed (a # rest)" by blast
    have t: "trimEndReversed (c # b # a # rest) = trimEndReversed (a # rest)" using 2 by simp
    have w: "onlyWhiteSpace [b, c]" using 2 by (simp add: whiteSpace_pair onlyWhiteSpace_single)
    have "c # b # a # rest = rev [b, c] @ rev p @ trimEndReversed (c # b # a # rest)"
      by (simp only: t rev.simps append_Cons append_Nil p(2) [symmetric])
    with w p(1) show ?thesis by (rule onlyWhiteSpace_snoc)
  next
    case 3
    with "1.IH"(3) obtain p where p: "onlyWhiteSpace p"
      "rest = rev p @ trimEndReversed rest" by blast
    have t: "trimEndReversed (c # b # a # rest) = trimEndReversed rest" using 3 by simp
    have w: "onlyWhiteSpace [a, b, c]" using 3 by (simp add: whiteSpace_triple onlyWhiteSpace_single)
    have "c # b # a # rest = rev [a, b, c] @ rev p @ trimEndReversed (c # b # a # rest)"
      by (simp only: t rev.simps append_Cons append_Nil p(2) [symmetric])
    with w p(1) show ?thesis by (rule onlyWhiteSpace_snoc)
  next
    case 4
    then have "c # b # a # rest = trimEndReversed (c # b # a # rest)" by simp
    then show ?thesis by (rule onlyWhiteSpace_rev_Nil)
  qed
next
  case (2 b a)
  consider "isSpaceChar b" | "\<not> isSpaceChar b" "isSpacePair a b"
    | "\<not> isSpaceChar b" "\<not> isSpacePair a b" by blast
  then show ?case
  proof cases
    case 1
    with "2.IH" obtain p where p: "onlyWhiteSpace p" "[a] = rev p @ trimEndReversed [a]" by blast
    have t: "trimEndReversed [b, a] = trimEndReversed [a]" using 1 by simp
    have w: "onlyWhiteSpace [b]" using 1 by (simp add: whiteSpace_char onlyWhiteSpace_single)
    have "[b, a] = rev [b] @ rev p @ trimEndReversed [b, a]"
      by (simp only: t rev.simps append_Cons append_Nil p(2) [symmetric])
    with w p(1) show ?thesis by (rule onlyWhiteSpace_snoc)
  next
    case 2
    then have w: "onlyWhiteSpace [a, b]" by (simp add: whiteSpace_pair onlyWhiteSpace_single)
    have "[b, a] = rev [a, b] @ rev [] @ trimEndReversed [b, a]" using 2 by simp
    with w onlyWhiteSpace.empty show ?thesis by (rule onlyWhiteSpace_snoc)
  next
    case 3
    then have "[b, a] = trimEndReversed [b, a]" by simp
    then show ?thesis by (rule onlyWhiteSpace_rev_Nil)
  qed
next
  case (3 a)
  show ?case
  proof (cases "isSpaceChar a")
    case True
    then have w: "onlyWhiteSpace [a]" by (simp add: whiteSpace_char onlyWhiteSpace_single)
    have "[a] = rev [a] @ rev [] @ trimEndReversed [a]" using True by simp
    with w onlyWhiteSpace.empty show ?thesis by (rule onlyWhiteSpace_snoc)
  next
    case False
    then have "[a] = trimEndReversed [a]" by simp
    then show ?thesis by (rule onlyWhiteSpace_rev_Nil)
  qed
next
  case 4
  have "[] = trimEndReversed []" by simp
  then show ?case by (rule onlyWhiteSpace_rev_Nil)
qed

lemma trim_decompose:
  "\<exists>p q. onlyWhiteSpace p \<and> onlyWhiteSpace q \<and> s = p @ trim s @ q"
proof -
  obtain p where p: "onlyWhiteSpace p" "s = p @ trimStart s"
    using trimStart_prefix by blast
  obtain q where q: "onlyWhiteSpace q"
    "rev (trimStart s) = rev q @ trimEndReversed (rev (trimStart s))"
    using trimEndReversed_suffix by blast
  from q(2) have "rev (rev (trimStart s)) = rev (rev q @ trimEndReversed (rev (trimStart s)))"
    by (rule arg_cong)
  then have "trimStart s = trim s @ q" by (simp add: trim_def trimEnd_def)
  then have "p @ trimStart s = p @ trim s @ q" by (rule arg_cong)
  with p(2) have "s = p @ trim s @ q" by (rule trans)
  with p(1) q(1) show ?thesis by blast
qed

lemma trim_empty_iff: "trim s = [] \<longleftrightarrow> onlyWhiteSpace s"
proof
  assume "onlyWhiteSpace s"
  then show "trim s = []" by (simp add: trim_def trimEnd_def trimStart_onlyWhiteSpace)
next
  assume e: "trim s = []"
  obtain p q where pq: "onlyWhiteSpace p" "onlyWhiteSpace q" "s = p @ trim s @ q"
    using trim_decompose by blast
  from pq(3) have "s = p @ q" unfolding e by simp
  with onlyWhiteSpace_append [OF pq(1,2)] show "onlyWhiteSpace s" by simp
qed

lemmas trim_eval = trim_def trimEnd_def isSpaceChar_def isSpacePair_def isSpaceTriple_def

lemma trim_examples:
  "trim [] = [] \<and> trim ''  '' = [] \<and> trim [CHR 0xC2, CHR 0xA0] = [] \<and>
   trim [CHR 0xEF, CHR 0xBB, CHR 0xBF, CHR 0x0A, CHR 0xE2, CHR 0x80, CHR 0xA8] = [] \<and>
   trim ([CHR 0xE3, CHR 0x80, CHR 0x80] @ '' Answer in French. '' @ [CHR 0xC2, CHR 0xA0, CHR 0x09])
     = ''Answer in French.'' \<and>
   trim [CHR 0xC2, CHR 0xA9] = [CHR 0xC2, CHR 0xA9]"
  by (simp add: trim_eval)

lemma getProp_include_default_other:
  assumes "k \<noteq> ''include''"
  shows "getProp (case getProp b ''include'' of
                    Some (JArr xs) \<Rightarrow> if xs = [] then setProp b ''include'' d else b
                  | _ \<Rightarrow> setProp b ''include'' d) k = getProp b k"
proof (cases "getProp b ''include''")
  case None
  with assms show ?thesis by (simp add: getProp_setProp_other)
next
  case (Some j)
  with assms show ?thesis by (cases j) (simp_all add: getProp_setProp_other)
qed

lemma getProp_blank_instructions:
  "getProp (case getProp b ''instructions'' of
              Some (JStr t) \<Rightarrow> if t = [] then setProp b ''instructions'' (JStr []) else b
            | _ \<Rightarrow> setProp b ''instructions'' (JStr [])) ''instructions''
   = Some (JStr (case getProp b ''instructions'' of Some (JStr t) \<Rightarrow> t | _ \<Rightarrow> []))"
proof (cases "getProp b ''instructions''")
  case None
  then show ?thesis by (simp add: getProp_setProp_same)
next
  case (Some j)
  then show ?thesis by (cases j) (simp_all add: getProp_setProp_same)
qed

lemma prepareBody_instructions:
  "getProp (prepareBody penv parsedBody) ''instructions'' =
     Some (JStr
       (let provided = (case getProp parsedBody ''instructions'' of Some (JStr t) \<Rightarrow> t | _ \<Rightarrow> [])
        in if trim provided = []
           then (if DISABLE_CODEX_INSTRUCTIONS penv then []
                 else orElse (globalCodexInstructions penv) ''You are Codex.'')
           else provided))"
proof -
  define b3 where
    "b3 = setProp (setProp (stripMetadata parsedBody) ''store'' (JBool False)) ''stream'' (JBool True)"
  define b4 where
    "b4 = (case getProp b3 ''instructions'' of
             Some (JStr t) \<Rightarrow> if t = [] then setProp b3 ''instructions'' (JStr []) else b3
           | _ \<Rightarrow> setProp b3 ''instructions'' (JStr []))"
  define fallback where
    "fallback = (if DISABLE_CODEX_INSTRUCTIONS penv then []
                 else orElse (globalCodexInstructions penv) ''You are Codex.'')"
  define b5 where
    "b5 = (if trim (stringProp b4 ''instructions'') = []
           then setProp b4 ''instructions'' (JStr fallback) else b4)"
  define newInput where
    "newInput = (if \<not> DISABLE_ENV_OVERRIDE penv
             then [JObj (developerMessage (envOverrideText penv))] else []) @
            (case getProp b5 ''input'' of Some (JArr xs) \<Rightarrow> xs | _ \<Rightarrow> [])"
  define b6 where "b6 = setProp b5 ''input'' (JArr newInput)"
  define provided where
    "provided = (case getProp parsedBody ''instructions'' of Some (JStr t) \<Rightarrow> t | _ \<Rightarrow> [])"
  have unfold: "prepareBody penv parsedBody =
      (case getProp b6 ''include'' of
         Some (JArr xs) \<Rightarrow>
           if xs = [] then setProp b6 ''include'' (JArr [JStr ''reasoning.encrypted_content'']) else b6
       | _ \<Rightarrow> setProp b6 ''include'' (JArr [JStr ''reasoning.encrypted_content'']))"
    by (simp only: prepareBody_def Let_def b3_def b4_def b5_def b6_def newInput_def fallback_def)
  have g3: "getProp b3 ''instructions'' = getProp parsedBody ''instructions''"
    by (simp add: b3_def getProp_setProp_other getProp_stripMetadata_other)
  have g4: "getProp b4 ''instructions'' = Some (JStr provided)"
    unfolding b4_def provided_def g3 [symmetric] by (rule getProp_blank_instructions)
  then have s4: "stringProp b4 ''instructions'' = provided"
    by (simp add: stringProp_def)
  have g5: "getProp b5 ''instructions'' = Some (JStr (if trim provided = [] then fallback else provided))"
    by (simp add: b5_def s4 g4 getProp_setProp_same)
  have g6: "getProp b6 ''instructions'' = getProp b5 ''instructions''"
    by (simp add: b6_def getProp_setProp_other)
  have "getProp (prepareBody penv parsedBody) ''instructions'' = getProp b6 ''instructions''"
    unfolding unfold by (rule getProp_include_default_other) simp
  with g6 g5 show ?thesis
    by (simp add: provided_def fallback_def Let_def)
qed

text \<open>
  \<open>transformRequestBody\<close> assigns the Codex instruction text it is given, whatever
  the caller sent.
\<close>

theorem transformRequestBody_overwrites_instructions:
  "instructions
     (transformRequestBody
        \<lparr>CODEX_OPENCODE_BRIDGE = ''bridge'', TOOL_GUIDE_MESSAGE = None, openCodeCodexPrompt = None,
         ToString = (\<lambda>v. [])\<rparr>
        \<lparr>model = Some ''gpt-5'', store = None, stream = None,
         instructions = Some ''Answer in French.'', input = None, tools = None, reasoning = None,
         text_config = None, include_list = None, prompt_cache_key = None,
         max_output_tokens = None, max_completion_tokens = None, metadata = None\<rparr>
        ''You are Codex.'' \<lparr>global_options = emptyOptions, models = []\<rparr> True)
   = Some ''You are Codex.''"
  by (simp add: transformRequestBody_def Let_def)

text \<open>
  C3 (as amended).  In the handler that rewrites the body itself, the instructions of
  the upstream body are the caller's when they are a string that \<open>trim()\<close> does not
  empty, that is, one with a character that is neither white space nor a line
  terminator (the no-break space, the byte order mark and the other Unicode spaces
  count as white space); in every other case they are the empty string when
  instruction injection is disabled, and otherwise the cached instruction text, or
  \<open>You are Codex.\<close> when that text is absent or empty.  \<open>transformRequestBody\<close>
  always sets the instructions to the Codex instruction text it is given.
\<close>

theorem instruction_resolution:
  "(getProp parsedBody ''instructions'' = Some (JStr t) \<and> trim t \<noteq> []
      \<longrightarrow> getProp (prepareBody penv parsedBody) ''instructions'' = Some (JStr t)) \<and>
   ((\<forall>t. getProp parsedBody ''instructions'' = Some (JStr t) \<longrightarrow> trim t = [])
      \<longrightarrow> getProp (prepareBody penv parsedBody) ''instructions''
            = Some (JStr (if DISABLE_CODEX_INSTRUCTIONS penv then []
                          else orElse (globalCodexInstructions penv) ''You are Codex.''))) \<and>
   instructions (transformRequestBody prompts request codexInstructions userConfig codexMode)
     = Some codexInstructions \<and>
   (trim t = [] \<longleftrightarrow> onlyWhiteSpace t)"
proof (intro conjI impI)
  assume "getProp parsedBody ''instructions'' = Some (JStr t) \<and> trim t \<noteq> []"
  then show "getProp (prepareBody penv parsedBody) ''instructions'' = Some (JStr t)"
    by (simp add: prepareBody_instructions)
next
  assume none: "\<forall>t. getProp parsedBody ''instructions'' = Some (JStr t) \<longrightarrow> trim t = []"
  have "trim (case getProp parsedBody ''instructions'' of Some (JStr t) \<Rightarrow> t | _ \<Rightarrow> []) = []"
  proof (cases "getProp parsedBody ''instructions''")
    case None
    then show ?thesis by (simp add: trim_def trimEnd_def)
  next
    case (Some j)
    with none show ?thesis by (cases j) (simp_all add: trim_def trimEnd_def)
  qed
  then show "getProp (prepareBody penv parsedBody) ''instructions''
            = Some (JStr (if DISABLE_CODEX_INSTRUCTIONS penv then []
                          else orElse (globalCodexInstructions penv) ''You are Codex.''))"
    by (simp add: prepareBody_instructions Let_def)
next
  show "instructions (transformRequestBody prompts request codexInstructions userConfig codexMode)
     = Some codexInstructions"
    by (simp add: transformRequestBody_def Let_def split: option.split)
next
  show "trim t = [] \<longleftrightarrow> onlyWhiteSpace t"
    by (rule trim_empty_iff)
qed

theorem instruction_resolution_witness:
  "getProp (prepareBody
      \<lparr>FORCE_JSON_RESPONSES = True, DISABLE_CODEX_INSTRUCTIONS = False, DISABLE_ENV_OVERRIDE = False,
       ENV_OVERRIDE_TEXT = None, globalCodexInstructions = Some ''You are the cached text.''\<rparr>
      [(''model'', JStr ''gpt-5''), (''instructions'', JStr ''Answer in French.'')]) ''instructions''
     = Some (JStr ''Answer in French.'') \<and>
   getProp (prepareBody
      \<lparr>FORCE_JSON_RESPONSES = True, DISABLE_CODEX_INSTRUCTIONS = False, DISABLE_ENV_OVERRIDE = False,
       ENV_OVERRIDE_TEXT = None, globalCodexInstructions = Some ''You are the cached text.''\<rparr>
      [(''model'', JStr ''gpt-5''), (''instructions'', JStr ''  '')]) ''instructions''
     = Some (JStr ''You are the cached text.'') \<and>
   getProp (prepareBody
      \<lparr>FORCE_JSON_RESPONSES = True, DISABLE_CODEX_INSTRUCTIONS = False, DISABLE_ENV_OVERRIDE = False,
       ENV_OVERRIDE_TEXT = None, globalCodexInstructions = Some ''You are the cached text.''\<rparr>
      [(''model'', JStr ''gpt-5''), (''instructions'', JStr [CHR 0xC2, CHR 0xA0])]) ''instructions''
     = Some (JStr ''You are the cached text.'') \<and>
   getProp (prepareBody
      \<lparr>FORCE_JSON_RESPONSES = True, DISABLE_CODEX_INSTRUCTIONS = True, DISABLE_ENV_OVERRIDE = False,
       ENV_OVERRIDE_TEXT = None, globalCodexInstructions = Some ''You are the cached text.''\<rparr>
      [(''model'', JStr ''gpt-5'')]) ''instructions''
     = Some (JStr [])"
proof -
  let ?on = "\<lparr>FORCE_JSON_RESPONSES = True, DISABLE_CODEX_INSTRUCTIONS = False,
       DISABLE_ENV_OVERRIDE = False, ENV_OVERRIDE_TEXT = None,
       globalCodexInstructions = Some ''You are the cached text.''\<rparr>"
  let ?off = "\<lparr>FORCE_JSON_RESPONSES = True, DISABLE_CODEX_INSTRUCTIONS = True,
       DISABLE_ENV_OVERRIDE = False, ENV_OVERRIDE_TEXT = None,
       globalCodexInstructions = Some ''You are the cached text.''\<rparr>"
  have h1: "getProp [(''model'', JStr ''gpt-5''), (''instructions'', JStr ''Answer in French.'')]
              ''instructions'' = Some (JStr ''Answer in French.'') \<and> trim ''Answer in French.'' \<noteq> []"
    by (simp add: getProp_def trim_eval)
  have h2: "\<forall>t. getProp [(''model'', JStr ''gpt-5''), (''instructions'', JStr ''  '')] ''instructions''
              = Some (JStr t) \<longrightarrow> trim t = []"
    by (simp add: getProp_def trim_eval)
  have h2': "\<forall>t. getProp [(''model'', JStr ''gpt-5''), (''instructions'', JStr [CHR 0xC2, CHR 0xA0])]
              ''instructions'' = Some (JStr t) \<longrightarrow> trim t = []"
    by (simp add: getProp_def trim_eval)
  have h3: "\<forall>t. getProp [(''model'', JStr ''gpt-5'')] ''instructions'' = Some (JStr t) \<longrightarrow> trim t = []"
    by (simp add: getProp_def)
  have a: "getProp (prepareBody ?on
             [(''model'', JStr ''gpt-5''), (''instructions'', JStr ''Answer in French.'')]) ''instructions''
           = Some (JStr ''Answer in French.'')"
    by (rule mp [OF conjunct1 [OF instruction_resolution] h1])
  have b: "getProp (prepareBody ?on
             [(''model'', JStr ''gpt-5''), (''instructions'', JStr ''  '')]) ''instructions''
           = Some (JStr ''You are the cached text.'')"
    using mp [OF conjunct1 [OF conjunct2 [OF instruction_resolution]] h2, of ?on]
    by (simp add: orElse_def)
  have b': "getProp (prepareBody ?on
             [(''model'', JStr ''gpt-5''), (''instructions'', JStr [CHR 0xC2, CHR 0xA0])]) ''instructions''
           = Some (JStr ''You are the cached text.'')"
    using mp [OF conjunct1 [OF conjunct2 [OF instruction_resolution]] h2', of ?on]
    by (simp add: orElse_def)
  have c: "getProp (prepareBody ?off [(''model'', JStr ''gpt-5'')]) ''instructions'' = Some (JStr [])"
    using mp [OF conjunct1 [OF conjunct2 [OF instruction_resolution]] h3, of ?off]
    by simp
  from a b b' c show ?thesis by (intro conjI)
qed

section \<open>Single-flight refresh\<close>

text \<open>
  The segments of a call, run one after the other, are \<open>ensureFreshCredentials\<close> as
  defined above.
\<close>

lemma interactiveLogin_halves:
  "interactiveLogin ext w = loginFinish ext (record_event LoginFlow w)"
  by (simp add: interactiveLogin_def loginFinish_def Let_def)

lemma bootstrap_alone:
  "bootstrapCredentials ext s = outcome (afterLogin ext (afterCachedRefresh ext (bootstrapStart ext s)))"
  by (auto simp: bootstrapCredentials_def bootstrapStart_def cachedRefreshAnswer_def loginAnswer_def
      interactiveLogin_halves refreshCredentials_def Let_def
      split: option.splits prod.splits sum.splits)

lemma afterRefresh_bootstrapStart:
  "afterRefresh ext (bootstrapStart ext s) = bootstrapStart ext s"
  by (simp add: bootstrapStart_def Let_def split: option.split)

lemma ensureFreshCredentials_alone: "ensureFreshCredentials ext s = alone ext s"
proof (cases "credentials (fst s) \<noteq> None \<and> hasValidAccess (clock (snd s)) (credentials (fst s))")
  case True
  then show ?thesis
    by (simp add: ensureFreshCredentials_def alone_def enter_def Let_def)
next
  case invalid: False
  show ?thesis
  proof (cases "credentials (fst s)")
    case None
    with invalid show ?thesis
      by (simp add: ensureFreshCredentials_def alone_def enter_def bootstrap_alone
          afterRefresh_bootstrapStart Let_def)
  next
    case (Some current)
    define started where "started = (if refreshPromise (fst s) = None
        then ((fst s)\<lparr>refreshPromise := Some current\<rparr>, refreshRequest current (snd s)) else s)"
    define settled where "settled = settleRefresh ext started"
    have e: "enter ext s = (AwaitingRefresh, started)"
      using Some invalid by (auto simp: enter_def started_def Let_def)
    have big: "ensureFreshCredentials ext s =
        (if credentials (fst settled) = None then bootstrapCredentials ext settled
         else (Inr (), settled))"
      using Some invalid
      by (simp add: ensureFreshCredentials_def settled_def started_def Let_def)
    show ?thesis
    proof (cases "credentials (fst settled) = None")
      case True
      then have r: "resume ext settled = bootstrapStart ext settled"
        by (simp add: resume_def)
      show ?thesis
        by (simp add: big True alone_def e settled_def [symmetric] r bootstrap_alone)
    next
      case False
      then have r: "resume ext settled = (Returned, settled)"
        by (auto simp: resume_def)
      show ?thesis
        by (simp add: big False alone_def e settled_def [symmetric] r)
    qed
  qed
qed

text \<open>Runs of the event loop.\<close>

lemma run_append:
  "run ext (xs @ ys) l = (case run ext xs l of None \<Rightarrow> None | Some l1 \<Rightarrow> run ext ys l1)"
  by (induction xs arbitrary: l) (auto split: option.splits)

lemma mark_upto:
  "k \<le> n \<Longrightarrow> fold (\<lambda>i ps. ps[i := p]) [0..<k] (replicate n q) = replicate k p @ replicate (n - k) q"
proof (induction k)
  case 0
  then show ?case by simp
next
  case (Suc k)
  then have "n - k = Suc (n - Suc k)" by simp
  with Suc show ?case
    by (simp add: list_update_append replicate_app_Cons_same)
qed

lemma mark_all: "fold (\<lambda>i ps. ps[i := p]) [0..<n] (replicate n q) = replicate n p"
  using mark_upto [of n n p q] by simp

text \<open>Waiters resumed in a row, when each of them ends at the same point.\<close>

lemma resumeAll_uniform:
  assumes step: "\<And>a w. I a w \<Longrightarrow> fst (resume ext (a, w)) = p \<and>
                   I (fst (snd (resume ext (a, w)))) (snd (snd (resume ext (a, w))))"
    and start: "I (auth l) (world l)"
  shows "positions (resumeAll ext order l) = fold (\<lambda>i ps. ps[i := p]) order (positions l) \<and>
         waiters (resumeAll ext order l) = [] \<and>
         I (auth (resumeAll ext order l)) (world (resumeAll ext order l))"
  using start
proof (induction order arbitrary: l)
  case Nil
  then show ?case by simp
next
  case (Cons i rest)
  obtain q a w where r: "resume ext (auth l, world l) = (q, a, w)"
    by (cases "resume ext (auth l, world l)") auto
  from step [OF Cons.prems] r have q: "q = p" and inv: "I a w" by simp_all
  let ?l1 = "l\<lparr>positions := (positions l)[i := p], auth := a, world := w\<rparr>"
  have "I (auth ?l1) (world ?l1)" using inv by simp
  from Cons.IH [OF this] show ?case by (simp add: r q)
qed

lemma enter_starts_refresh:
  assumes "credentials a = Some c" and "\<not> hasValidAccess (clock w) (Some c)"
    and "refreshPromise a = None"
  shows "enter ext (a, w) = (AwaitingRefresh, a\<lparr>refreshPromise := Some c\<rparr>, refreshRequest c w)"
  using assms by (simp add: enter_def Let_def)

lemma enter_joins_refresh:
  assumes "credentials a = Some c" and "\<not> hasValidAccess (clock w) (Some c)"
    and "refreshPromise a \<noteq> None"
  shows "enter ext (a, w) = (AwaitingRefresh, a, w)"
  using assms by (auto simp: enter_def Let_def)

lemma clock_refreshRequest: "clock (refreshRequest c w) = clock w"
  by (simp add: refreshRequest_def record_event_def)

lemma callers_join:
  assumes creds: "credentials (auth l) = Some c"
    and expired: "\<not> hasValidAccess (clock (world l)) (Some c)"
    and idle: "refreshPromise (auth l) = None"
    and fresh: "positions l = replicate n NotStarted" "waiters l = []"
    and k: "0 < k" "k \<le> n"
  shows "run ext (map Call [0..<k]) l =
           Some (l\<lparr>positions := replicate k AwaitingRefresh @ replicate (n - k) NotStarted,
                   waiters := [0..<k],
                   auth := (auth l)\<lparr>refreshPromise := Some c\<rparr>,
                   world := refreshRequest c (world l)\<rparr>)"
  using k
proof (induction k)
  case 0
  then show ?case by simp
next
  case (Suc k)
  show ?case
  proof (cases "k = 0")
    case True
    from Suc.prems have "0 < n" by simp
    then have upd: "(replicate n NotStarted)[0 := AwaitingRefresh]
                = AwaitingRefresh # replicate (n - Suc 0) NotStarted"
      by (cases n) simp_all
    from \<open>0 < n\<close> True show ?thesis
      by (simp add: fresh place_def upd enter_starts_refresh [OF creds expired idle])
  next
    case False
    with Suc.prems have k: "0 < k" "k \<le> n" "k < n" by simp_all
    let ?l1 = "l\<lparr>positions := replicate k AwaitingRefresh @ replicate (n - k) NotStarted,
                   waiters := [0..<k],
                   auth := (auth l)\<lparr>refreshPromise := Some c\<rparr>,
                   world := refreshRequest c (world l)\<rparr>"
    have before: "run ext (map Call [0..<k]) l = Some ?l1"
      using Suc.IH k by simp
    have at: "positions ?l1 ! k = NotStarted" "k < length (positions ?l1)"
      using k by (simp_all add: nth_append)
    have join: "enter ext ((auth l)\<lparr>refreshPromise := Some c\<rparr>, refreshRequest c (world l))
                  = (AwaitingRefresh, (auth l)\<lparr>refreshPromise := Some c\<rparr>, refreshRequest c (world l))"
      by (rule enter_joins_refresh [where c = c])
         (simp_all add: creds expired clock_refreshRequest)
    have "n - k = Suc (n - Suc k)" using k by simp
    then have upd: "(replicate k AwaitingRefresh @ replicate (n - k) NotStarted)[k := AwaitingRefresh]
                = replicate (Suc k) AwaitingRefresh @ replicate (n - Suc k) NotStarted"
      by (simp add: list_update_append replicate_app_Cons_same)
    have "step ext (Call k) ?l1 =
            Some (l\<lparr>positions := replicate (Suc k) AwaitingRefresh @ replicate (n - Suc k) NotStarted,
                   waiters := [0..<Suc k],
                   auth := (auth l)\<lparr>refreshPromise := Some c\<rparr>,
                   world := refreshRequest c (world l)\<rparr>)"
      using at upd by (simp add: join place_def Let_def)
    with before show ?thesis
      by (simp add: run_append del: replicate_Suc)
  qed
qed

lemma refreshCalls_append: "refreshCalls (xs @ ys) = refreshCalls xs @ refreshCalls ys"
  by (induction xs rule: refreshCalls.induct) simp_all

lemma mark_nth:
  "length (fold (\<lambda>i ps. ps[i := p]) order ps) = length ps \<and>
   (j < length ps \<longrightarrow>
      fold (\<lambda>i ps. ps[i := p]) order ps ! j = (if j \<in> set order then p else ps ! j))"
  by (induction order arbitrary: ps) (auto simp: nth_list_update)

lemma adoptTokens_world:
  "adoptTokens ext failure tokenResult w = (Inr creds, w1) \<Longrightarrow> w1 = persistCredentials creds w"
  "adoptTokens ext failure tokenResult w = (Inl e, w1) \<Longrightarrow> w1 = w"
  by (auto simp: adoptTokens_def Let_def split: TokenResult.splits sum.splits)

lemma refreshResponse_world:
  "refreshResponse ext c w = (Inr creds, w1) \<Longrightarrow> w1 = persistCredentials creds (advance ext w)"
  "refreshResponse ext c w = (Inl e, w1) \<Longrightarrow> w1 = advance ext w"
  by (auto simp: refreshResponse_def Let_def dest: adoptTokens_world)

text \<open>After a successful refresh every waiter returns and leaves the state as it is.\<close>

lemma resumeAll_with_credentials:
  assumes "credentials (auth l) \<noteq> None"
  shows "positions (resumeAll ext order l) = fold (\<lambda>i ps. ps[i := Returned]) order (positions l) \<and>
         auth (resumeAll ext order l) = auth l \<and> world (resumeAll ext order l) = world l"
proof -
  have "positions (resumeAll ext order l) = fold (\<lambda>i ps. ps[i := Returned]) order (positions l) \<and>
        waiters (resumeAll ext order l) = [] \<and>
        (auth (resumeAll ext order l) = auth l \<and> world (resumeAll ext order l) = world l)"
    by (rule resumeAll_uniform [where I = "\<lambda>a w. a = auth l \<and> w = world l"])
       (use assms in \<open>auto simp: resume_def\<close>)
  then show ?thesis by simp
qed

text \<open>After a failed refresh with no stored record every waiter starts a login of its own.\<close>

lemma resumeAll_without_record:
  assumes "credentials (auth l) = None" and "tokenFile (world l) = None"
  shows "positions (resumeAll ext order l) = fold (\<lambda>i ps. ps[i := AwaitingLogin]) order (positions l)"
proof -
  have "positions (resumeAll ext order l) = fold (\<lambda>i ps. ps[i := AwaitingLogin]) order (positions l) \<and>
        waiters (resumeAll ext order l) = [] \<and>
        (credentials (auth (resumeAll ext order l)) = None \<and>
         tokenFile (world (resumeAll ext order l)) = None)"
    by (rule resumeAll_uniform [where I = "\<lambda>a w. credentials a = None \<and> tokenFile w = None"])
       (use assms in \<open>auto simp: resume_def bootstrapStart_def loadStoredCredentials_def
          record_event_def Let_def\<close>)
  then show ?thesis by simp
qed

text \<open>
  After a failed refresh with an expired stored record every waiter issues a refresh
  call of its own for that record.
\<close>

lemma resume_expired_record:
  assumes "credentials a = None" and "tokenFile w = Some d"
    and "\<not> hasValidAccess (clock w) (Some d)"
  shows "resume ext (a, w) = (AwaitingCachedRefresh d, a, refreshRequest d (record_event FileRead w))"
  using assms
  by (simp add: resume_def bootstrapStart_def loadStoredCredentials_def record_event_def Let_def)

lemma resumeAll_expired_record:
  assumes "credentials (auth l) = None" and "tokenFile (world l) = Some d"
    and "\<not> hasValidAccess (clock (world l)) (Some d)"
  shows "positions (resumeAll ext order l)
           = fold (\<lambda>i ps. ps[i := AwaitingCachedRefresh d]) order (positions l) \<and>
         refreshCalls (events (world (resumeAll ext order l)))
           = refreshCalls (events (world l)) @ replicate (length order) (refresh d)"
  using assms
proof (induction order arbitrary: l)
  case Nil
  then show ?case by simp
next
  case (Cons i rest)
  let ?w = "refreshRequest d (record_event FileRead (world l))"
  let ?l1 = "l\<lparr>positions := (positions l)[i := AwaitingCachedRefresh d], auth := auth l, world := ?w\<rparr>"
  have r: "resume ext (auth l, world l) = (AwaitingCachedRefresh d, auth l, ?w)"
    using Cons.prems by (rule resume_expired_record)
  have "credentials (auth ?l1) = None" "tokenFile (world ?l1) = Some d"
    "\<not> hasValidAccess (clock (world ?l1)) (Some d)"
    using Cons.prems by (simp_all add: refreshRequest_def record_event_def)
  from Cons.IH [OF this]
  have "positions (resumeAll ext rest ?l1)
           = fold (\<lambda>i ps. ps[i := AwaitingCachedRefresh d]) rest (positions ?l1)"
    and "refreshCalls (events (world (resumeAll ext rest ?l1)))
           = refreshCalls (events (world ?l1)) @ replicate (length rest) (refresh d)"
    by simp_all
  moreover have "refreshCalls (events (world ?l1)) = refreshCalls (events (world l)) @ [refresh d]"
    by (simp add: refreshRequest_def record_event_def refreshCalls_append)
  ultimately show ?case
    by (simp add: r replicate_append_same)
qed

text \<open>
  After a failed refresh with a valid stored record the first waiter adopts the record
  and the others return at once.
\<close>

lemma resumeAll_valid_record:
  assumes "credentials (auth l) = None" and "tokenFile (world l) = Some d"
    and "hasValidAccess (clock (world l)) (Some d)"
  shows "positions (resumeAll ext (i # rest) l)
           = fold (\<lambda>i ps. ps[i := Returned]) (i # rest) (positions l) \<and>
         credentials (auth (resumeAll ext (i # rest) l)) = Some d"
proof -
  let ?l1 = "l\<lparr>positions := (positions l)[i := Returned], auth := (auth l)\<lparr>credentials := Some d\<rparr>,
               world := record_event FileRead (world l)\<rparr>"
  have r: "resume ext (auth l, world l)
             = (Returned, (auth l)\<lparr>credentials := Some d\<rparr>, record_event FileRead (world l))"
    using assms
    by (simp add: resume_def bootstrapStart_def loadStoredCredentials_def record_event_def Let_def)
  have "credentials (auth ?l1) \<noteq> None" by simp
  from resumeAll_with_credentials [OF this, of ext rest] show ?thesis
    by (simp add: r)
qed

lemma resume_refreshPromise:
  "refreshPromise (fst (snd (resume ext (a, w)))) = refreshPromise a"
  by (simp add: resume_def bootstrapStart_def Let_def split: option.split)

lemma resumeAll_refreshPromise:
  "refreshPromise (auth (resumeAll ext order l)) = refreshPromise (auth l)"
proof (induction order arbitrary: l)
  case Nil
  then show ?case by simp
next
  case (Cons i rest)
  obtain q a w where r: "resume ext (auth l, world l) = (q, a, w)"
    by (cases "resume ext (auth l, world l)") auto
  with resume_refreshPromise [of ext "auth l" "world l"]
  have "refreshPromise a = refreshPromise (auth l)" by simp
  with Cons.IH [of "l\<lparr>positions := (positions l)[i := q], auth := a, world := w\<rparr>"] r
  show ?case by simp
qed

lemmas loop_eval = place_def enter_def hasValidAccess_def refreshRequest_def record_event_def
  settleRefresh_def refreshResponse_def adoptTokens_def extractAccountId_def persistCredentials_def
  advance_def resume_def bootstrapStart_def loadStoredCredentials_def Let_def

text \<open>
  Two callers find expired credentials; the shared refresh fails and the token file
  still holds the expired record.  Each caller then enters \<open>bootstrapCredentials\<close>
  and issues a refresh call of its own: three calls of the token endpoint in all.
\<close>

theorem unshared_bootstrap_refresh_calls:
  "run \<lparr>refreshAccessToken = (\<lambda>t r. TokenFailed), exchangeAuthorizationCode = (\<lambda>t c. TokenFailed),
        chatgpt_account_id = (\<lambda>a. Some ''acct''), authorizationCode = None, latency = 5\<rparr>
     [Call 0, Call 1, RefreshAnswer]
     \<lparr>positions = [NotStarted, NotStarted], waiters = [],
      auth = \<lparr>credentials = Some \<lparr>access = ''a'', refresh = ''r'', expires = 0, accountId = ''x''\<rparr>,
              refreshPromise = None\<rparr>,
      world = \<lparr>tokenFile = Some \<lparr>access = ''a'', refresh = ''r'', expires = 0, accountId = ''x''\<rparr>,
               clock = 1000, events = []\<rparr>\<rparr>
   = Some
     \<lparr>positions = [AwaitingCachedRefresh \<lparr>access = ''a'', refresh = ''r'', expires = 0, accountId = ''x''\<rparr>,
                   AwaitingCachedRefresh \<lparr>access = ''a'', refresh = ''r'', expires = 0, accountId = ''x''\<rparr>],
      waiters = [],
      auth = \<lparr>credentials = None, refreshPromise = None\<rparr>,
      world = \<lparr>tokenFile = Some \<lparr>access = ''a'', refresh = ''r'', expires = 0, accountId = ''x''\<rparr>,
               clock = 1005,
               events = [RefreshCall ''r'', FileRead, RefreshCall ''r'', FileRead, RefreshCall ''r'']\<rparr>\<rparr> \<and>
   refreshCalls [RefreshCall ''r'', FileRead, RefreshCall ''r'', FileRead, RefreshCall ''r'']
     = [''r'', ''r'', ''r'']"
  by (simp add: loop_eval)

text \<open>
  C1 (as amended).  Let \<open>n\<close> calls start while the in-memory credentials are present
  but expired and no refresh is in flight.  Then exactly one refresh call is issued for
  them and all of them wait on the one refresh promise.  When the token endpoint
  answers, the promise is cleared and the credentials are replaced (success) or cleared
  (failure) before the waiters continue, in the order of their \<open>await\<close>.  On success
  every caller returns, the state is the one the refresh left, and that refresh call is
  the only one.  On failure no caller keeps waiting and each continues into
  \<open>bootstrapCredentials\<close> by itself: with no stored record every caller starts a
  login; with an expired stored record every caller issues a further refresh call of
  its own; with a valid stored record every caller returns and that record is the
  credentials in memory.
\<close>

theorem single_flight_refresh:
  assumes creds: "credentials (auth l) = Some c"
    and expired: "\<not> hasValidAccess (clock (world l)) (Some c)"
    and idle: "refreshPromise (auth l) = None"
    and fresh: "positions l = replicate n NotStarted" "waiters l = []"
    and n: "0 < n"
  shows "\<exists>l1 ls l2.
     run ext (map Call [0..<n]) l = Some l1 \<and>
     positions l1 = replicate n AwaitingRefresh \<and> waiters l1 = [0..<n] \<and>
     credentials (auth l1) = Some c \<and> refreshPromise (auth l1) = Some c \<and>
     events (world l1) = events (world l) @ [RefreshCall (refresh c)] \<and>
     (auth ls, world ls) = settleRefresh ext (auth l1, world l1) \<and>
     positions ls = positions l1 \<and> refreshPromise (auth ls) = None \<and>
     step ext RefreshAnswer l1 = Some l2 \<and> l2 = resumeAll ext [0..<n] ls \<and>
     refreshPromise (auth l2) = None \<and>
     (\<forall>new w1. refreshResponse ext c (world l1) = (Inr new, w1) \<longrightarrow>
        credentials (auth ls) = Some new \<and> auth l2 = auth ls \<and> world l2 = world ls \<and>
        positions l2 = replicate n Returned \<and>
        refreshCalls (events (world l2)) = refreshCalls (events (world l)) @ [refresh c]) \<and>
     (\<forall>e w1. refreshResponse ext c (world l1) = (Inl e, w1) \<longrightarrow>
        credentials (auth ls) = None \<and>
        (tokenFile (world l) = None \<longrightarrow> positions l2 = replicate n AwaitingLogin) \<and>
        (\<forall>d. tokenFile (world l) = Some d \<and> \<not> hasValidAccess (clock w1) (Some d) \<longrightarrow>
           positions l2 = replicate n (AwaitingCachedRefresh d) \<and>
           refreshCalls (events (world l2))
             = refreshCalls (events (world l)) @ refresh c # replicate n (refresh d)) \<and>
        (\<forall>d. tokenFile (world l) = Some d \<and> hasValidAccess (clock w1) (Some d) \<longrightarrow>
           positions l2 = replicate n Returned \<and> credentials (auth l2) = Some d))"
proof -
  define l1 where "l1 = l\<lparr>positions := replicate n AwaitingRefresh, waiters := [0..<n],
      auth := (auth l)\<lparr>refreshPromise := Some c\<rparr>, world := refreshRequest c (world l)\<rparr>"
  define st where "st = settleRefresh ext (auth l1, world l1)"
  define ls where "ls = l1\<lparr>auth := fst st, world := snd st\<rparr>"
  define l2 where "l2 = resumeAll ext [0..<n] ls"
  have run1: "run ext (map Call [0..<n]) l = Some l1"
    using callers_join [OF creds expired idle fresh n, where ext = ext] by (simp add: l1_def)
  have l1: "positions l1 = replicate n AwaitingRefresh" "waiters l1 = [0..<n]"
    "credentials (auth l1) = Some c" "refreshPromise (auth l1) = Some c"
    "events (world l1) = events (world l) @ [RefreshCall (refresh c)]"
    "tokenFile (world l1) = tokenFile (world l)"
    by (simp_all add: l1_def creds refreshRequest_def record_event_def)
  have ls: "(auth ls, world ls) = settleRefresh ext (auth l1, world l1)" "positions ls = positions l1"
    by (simp_all add: ls_def st_def)
  have cleared: "refreshPromise (auth ls) = None"
    by (simp add: ls_def st_def settleRefresh_def l1(4) split: prod.split sum.split)
  have step2: "step ext RefreshAnswer l1 = Some l2"
    by (simp add: l2_def ls_def st_def l1 Let_def)
  have cleared2: "refreshPromise (auth l2) = None"
    by (simp add: l2_def resumeAll_refreshPromise cleared)
  have success: "credentials (auth ls) = Some new \<and> auth l2 = auth ls \<and> world l2 = world ls \<and>
        positions l2 = replicate n Returned \<and>
        refreshCalls (events (world l2)) = refreshCalls (events (world l)) @ [refresh c]"
    if r: "refreshResponse ext c (world l1) = (Inr new, w1)" for new w1
  proof -
    have a: "credentials (auth ls) = Some new" and w: "world ls = w1"
      by (simp_all add: ls_def st_def settleRefresh_def l1(4) r)
    then have "credentials (auth ls) \<noteq> None" by simp
    from resumeAll_with_credentials [OF this, of ext "[0..<n]"]
    have p: "positions l2 = replicate n Returned" and same: "auth l2 = auth ls" "world l2 = world ls"
      by (simp_all add: l2_def ls(2) l1(1) mark_all)
    have "w1 = persistCredentials new (advance ext (world l1))"
      using r by (rule refreshResponse_world)
    then have "refreshCalls (events w1) = refreshCalls (events (world l)) @ [refresh c]"
      by (simp add: persistCredentials_def advance_def record_event_def l1(5) refreshCalls_append)
    with a p same w show ?thesis by simp
  qed
  have failure: "credentials (auth ls) = None \<and>
        (tokenFile (world l) = None \<longrightarrow> positions l2 = replicate n AwaitingLogin) \<and>
        (\<forall>d. tokenFile (world l) = Some d \<and> \<not> hasValidAccess (clock w1) (Some d) \<longrightarrow>
           positions l2 = replicate n (AwaitingCachedRefresh d) \<and>
           refreshCalls (events (world l2))
             = refreshCalls (events (world l)) @ refresh c # replicate n (refresh d)) \<and>
        (\<forall>d. tokenFile (world l) = Some d \<and> hasValidAccess (clock w1) (Some d) \<longrightarrow>
           positions l2 = replicate n Returned \<and> credentials (auth l2) = Some d)"
    if r: "refreshResponse ext c (world l1) = (Inl e, w1)" for e w1
  proof -
    have a: "credentials (auth ls) = None" and w: "world ls = w1"
      by (simp_all add: ls_def st_def settleRefresh_def l1(4) r)
    have "w1 = advance ext (world l1)"
      using r by (rule refreshResponse_world)
    then have w1: "tokenFile w1 = tokenFile (world l)"
      "refreshCalls (events w1) = refreshCalls (events (world l)) @ [refresh c]"
      by (simp_all add: advance_def l1 refreshCalls_append)
    have login: "positions l2 = replicate n AwaitingLogin" if "tokenFile (world l) = None"
      using resumeAll_without_record [OF a, of ext "[0..<n]"] that
      by (simp add: l2_def w w1 ls(2) l1(1) mark_all)
    have again: "positions l2 = replicate n (AwaitingCachedRefresh d) \<and>
           refreshCalls (events (world l2))
             = refreshCalls (events (world l)) @ refresh c # replicate n (refresh d)"
      if "tokenFile (world l) = Some d" "\<not> hasValidAccess (clock w1) (Some d)" for d
      using resumeAll_expired_record [OF a, of d ext "[0..<n]"] that
      by (simp add: l2_def w w1 ls(2) l1(1) mark_all)
    have adopt: "positions l2 = replicate n Returned \<and> credentials (auth l2) = Some d"
      if "tokenFile (world l) = Some d" "hasValidAccess (clock w1) (Some d)" for d
    proof -
      from n have order: "[0..<n] = 0 # [1..<n]" by (simp add: upt_conv_Cons)
      have "fold (\<lambda>i ps. ps[i := Returned]) (0 # [1..<n]) (replicate n AwaitingRefresh)
              = replicate n Returned"
        using mark_all [of Returned n AwaitingRefresh] order by simp
      with resumeAll_valid_record [OF a, of d ext 0 "[1..<n]"] that
      show ?thesis
        by (simp add: l2_def w w1 ls(2) l1(1) order)
    qed
    from a login again adopt show ?thesis by blast
  qed
  have resumed: "l2 = resumeAll ext [0..<n] ls"
    by (simp add: l2_def)
  show ?thesis
    apply (rule exI [of _ l1])
    apply (rule exI [of _ ls])
    apply (rule exI [of _ l2])
    using run1 l1(1-5) ls cleared step2 resumed cleared2 success failure
    apply (intro conjI allI impI)
    apply blast+
    done
qed

theorem single_flight_refresh_witness:
  "(\<exists>l2. run \<lparr>refreshAccessToken = (\<lambda>t r. TokenSuccess ''a2'' ''r2'' (t + 3600000)),
              exchangeAuthorizationCode = (\<lambda>t c. TokenFailed),
              chatgpt_account_id = (\<lambda>a. Some ''acct''), authorizationCode = None, latency = 5\<rparr>
          [Call 0, Call 1, RefreshAnswer]
          \<lparr>positions = [NotStarted, NotStarted], waiters = [],
           auth = \<lparr>credentials = Some \<lparr>access = ''a'', refresh = ''r'', expires = 0, accountId = ''x''\<rparr>,
                   refreshPromise = None\<rparr>,
           world = \<lparr>tokenFile = Some \<lparr>access = ''a'', refresh = ''r'', expires = 0, accountId = ''x''\<rparr>,
                    clock = 1000, events = []\<rparr>\<rparr> = Some l2 \<and>
         positions l2 = [Returned, Returned] \<and>
         refreshPromise (auth l2) = None \<and>
         credentials (auth l2)
           = Some \<lparr>access = ''a2'', refresh = ''r2'', expires = 3601005, accountId = ''acct''\<rparr> \<and>
         refreshCalls (events (world l2)) = [''r'']) \<and>
   (\<exists>l2. run \<lparr>refreshAccessToken = (\<lambda>t r. TokenFailed),
              exchangeAuthorizationCode = (\<lambda>t c. TokenFailed),
              chatgpt_account_id = (\<lambda>a. Some ''acct''), authorizationCode = None, latency = 5\<rparr>
          [Call 0, Call 1, RefreshAnswer]
          \<lparr>positions = [NotStarted, NotStarted], waiters = [],
           auth = \<lparr>credentials = Some \<lparr>access = ''a'', refresh = ''r'', expires = 0, accountId = ''x''\<rparr>,
                   refreshPromise = None\<rparr>,
           world = \<lparr>tokenFile = None, clock = 1000, events = []\<rparr>\<rparr> = Some l2 \<and>
         positions l2 = [AwaitingLogin, AwaitingLogin] \<and>
         refreshPromise (auth l2) = None)"
proof -
  let ?c = "\<lparr>access = ''a'', refresh = ''r'', expires = 0, accountId = ''x''\<rparr>"
  let ?new = "\<lparr>access = ''a2'', refresh = ''r2'', expires = 3601005, accountId = ''acct''\<rparr>"
  let ?good = "\<lparr>refreshAccessToken = (\<lambda>t r. TokenSuccess ''a2'' ''r2'' (t + 3600000)),
              exchangeAuthorizationCode = (\<lambda>t c. TokenFailed),
              chatgpt_account_id = (\<lambda>a. Some ''acct''), authorizationCode = None, latency = 5\<rparr>"
  let ?bad = "\<lparr>refreshAccessToken = (\<lambda>t r. TokenFailed),
              exchangeAuthorizationCode = (\<lambda>t c. TokenFailed),
              chatgpt_account_id = (\<lambda>a. Some ''acct''), authorizationCode = None, latency = 5\<rparr>"
  let ?a = "\<lparr>credentials = Some ?c, refreshPromise = None\<rparr>"
  let ?la = "\<lparr>positions = [NotStarted, NotStarted], waiters = [], auth = ?a,
              world = \<lparr>tokenFile = Some ?c, clock = 1000, events = []\<rparr>\<rparr>"
  let ?lb = "\<lparr>positions = [NotStarted, NotStarted], waiters = [], auth = ?a,
              world = \<lparr>tokenFile = None, clock = 1000, events = []\<rparr>\<rparr>"
  have two: "map Call [0..<2] = [Call 0, Call 1]" "replicate 2 p = [p, p]" for p :: pc
    by (simp_all add: numeral_2_eq_2)
  have expired: "\<not> hasValidAccess 1000 (Some ?c)"
    by (simp add: hasValidAccess_def)
  have first: "\<exists>l2. run ?good [Call 0, Call 1, RefreshAnswer] ?la = Some l2 \<and>
         positions l2 = [Returned, Returned] \<and> refreshPromise (auth l2) = None \<and>
         credentials (auth l2) = Some ?new \<and> refreshCalls (events (world l2)) = [''r'']"
  proof -
    have "credentials (auth ?la) = Some ?c" "\<not> hasValidAccess (clock (world ?la)) (Some ?c)"
      "refreshPromise (auth ?la) = None" "positions ?la = replicate 2 NotStarted"
      "waiters ?la = []" "0 < (2::nat)"
      using expired by (simp_all add: two)
    note inst = single_flight_refresh [OF this, where ext = ?good]
    have joined: "run ?good [Call 0, Call 1] ?la
            = Some \<lparr>positions = [AwaitingRefresh, AwaitingRefresh], waiters = [0, 1],
                    auth = \<lparr>credentials = Some ?c, refreshPromise = Some ?c\<rparr>,
                    world = \<lparr>tokenFile = Some ?c, clock = 1000, events = [RefreshCall ''r'']\<rparr>\<rparr>"
      by (simp add: loop_eval)
    have answered: "refreshResponse ?good ?c \<lparr>tokenFile = Some ?c, clock = 1000, events = [RefreshCall ''r'']\<rparr>
            = (Inr ?new, \<lparr>tokenFile = Some ?new, clock = 1005,
                          events = [RefreshCall ''r'', FileWrite ?new]\<rparr>)"
      by (simp add: loop_eval)
    from inst show ?thesis
    proof (elim exE conjE)
      fix l1 ls l2
      assume calls: "run ?good (map Call [0..<2]) ?la = Some l1"
        and answer: "step ?good RefreshAnswer l1 = Some l2"
        and cleared: "refreshPromise (auth l2) = None"
        and success: "\<forall>new w1. refreshResponse ?good ?c (world l1) = (Inr new, w1) \<longrightarrow>
          credentials (auth ls) = Some new \<and> auth l2 = auth ls \<and> world l2 = world ls \<and>
          positions l2 = replicate 2 Returned \<and>
          refreshCalls (events (world l2)) = refreshCalls (events (world ?la)) @ [refresh ?c]"
      from calls joined
      have w1: "world l1 = \<lparr>tokenFile = Some ?c, clock = 1000, events = [RefreshCall ''r'']\<rparr>"
        by (simp add: two)
      note success [unfolded w1, THEN spec, THEN spec, THEN mp, OF answered]
      then have "positions l2 = [Returned, Returned]" "credentials (auth l2) = Some ?new"
        "refreshCalls (events (world l2)) = [''r'']"
        by (auto simp: two)
      moreover from calls answer have "run ?good [Call 0, Call 1, RefreshAnswer] ?la = Some l2"
        using run_append [of ?good "[Call 0, Call 1]" "[RefreshAnswer]" ?la]
        by (simp add: two)
      ultimately show ?thesis using cleared by (intro exI [of _ l2] conjI)
    qed
  qed
  have second: "\<exists>l2. run ?bad [Call 0, Call 1, RefreshAnswer] ?lb = Some l2 \<and>
         positions l2 = [AwaitingLogin, AwaitingLogin] \<and> refreshPromise (auth l2) = None"
  proof -
    have "credentials (auth ?lb) = Some ?c" "\<not> hasValidAccess (clock (world ?lb)) (Some ?c)"
      "refreshPromise (auth ?lb) = None" "positions ?lb = replicate 2 NotStarted"
      "waiters ?lb = []" "0 < (2::nat)"
      using expired by (simp_all add: two)
    note inst = single_flight_refresh [OF this, where ext = ?bad]
    have joined: "run ?bad [Call 0, Call 1] ?lb
            = Some \<lparr>positions = [AwaitingRefresh, AwaitingRefresh], waiters = [0, 1],
                    auth = \<lparr>credentials = Some ?c, refreshPromise = Some ?c\<rparr>,
                    world = \<lparr>tokenFile = None, clock = 1000, events = [RefreshCall ''r'']\<rparr>\<rparr>"
      by (simp add: loop_eval)
    have answered: "refreshResponse ?bad ?c \<lparr>tokenFile = None, clock = 1000, events = [RefreshCall ''r'']\<rparr>
            = (Inl (Error ''Token refresh failed''),
               \<lparr>tokenFile = None, clock = 1005, events = [RefreshCall ''r'']\<rparr>)"
      by (simp add: loop_eval)
    from inst show ?thesis
    proof (elim exE conjE)
      fix l1 ls l2
      assume calls: "run ?bad (map Call [0..<2]) ?lb = Some l1"
        and answer: "step ?bad RefreshAnswer l1 = Some l2"
        and cleared: "refreshPromise (auth l2) = None"
        and failure: "\<forall>e w1. refreshResponse ?bad ?c (world l1) = (Inl e, w1) \<longrightarrow>
          credentials (auth ls) = None \<and>
          (tokenFile (world ?lb) = None \<longrightarrow> positions l2 = replicate 2 AwaitingLogin) \<and>
          (\<forall>d. tokenFile (world ?lb) = Some d \<and> \<not> hasValidAccess (clock w1) (Some d) \<longrightarrow>
             positions l2 = replicate 2 (AwaitingCachedRefresh d) \<and>
             refreshCalls (events (world l2))
               = refreshCalls (events (world ?lb)) @ refresh ?c # replicate 2 (refresh d)) \<and>
          (\<forall>d. tokenFile (world ?lb) = Some d \<and> hasValidAccess (clock w1) (Some d) \<longrightarrow>
             positions l2 = replicate 2 Returned \<and> credentials (auth l2) = Some d)"
      from calls joined
      have w1: "world l1 = \<lparr>tokenFile = None, clock = 1000, events = [RefreshCall ''r'']\<rparr>"
        by (simp add: two)
      note failure [unfolded w1, THEN spec, THEN spec, THEN mp, OF answered]
      then have "positions l2 = [AwaitingLogin, AwaitingLogin]"
        by (simp add: two)
      moreover from calls answer have "run ?bad [Call 0, Call 1, RefreshAnswer] ?lb = Some l2"
        using run_append [of ?bad "[Call 0, Call 1]" "[RefreshAnswer]" ?lb]
        by (simp add: two)
      ultimately show ?thesis using cleared by (intro exI [of _ l2] conjI)
    qed
  qed
  from first second show ?thesis by (rule conjI)
qed

end
